theory Spec2Isabelle
  imports Complex_Main "HOL-Library.Multiset" "HOL-Library.Sublist" "HOL-Library.Log_Nat"
begin

section \<open>TaskPulse: the task model, its statistics and its store (src/app/page.tsx)\<close>

text \<open>
  The development follows the first variant of the page (cache key \<open>taskpulse_cache_v13\<close>,
  lines 1 to 1403 of the file), the one with categories and a weekly workout plan.

  Conventions of the embedding.
  \<^item> A JavaScript string is a \<open>string\<close>, one \<open>char\<close> per code unit (code units below 256).
  \<^item> A JavaScript number that the program uses as a count is a \<open>nat\<close>; a number read from
    a \<open>Date\<close> or stored in a task is a \<open>jsnum\<close>, an integer or \<open>NaN\<close>; a number of the chart
    is a \<open>real\<close> that the binary64 format holds, and an operation on such numbers gives its
    exact result rounded to the nearest one.
  \<^item> A \<open>Date\<close> object holds a time value, or \<open>NaN\<close>. The model keeps the local time value that
    the host reads from it (\<open>LocalTime\<close> of ECMA-262, in milliseconds) together with the
    host's time zone, and computes the calendar fields as ECMA-262 does (\<open>Day\<close>,
    \<open>DayFromYear\<close>, \<open>YearFromTime\<close>, \<open>MonthFromTime\<close>, \<open>DateFromTime\<close>, \<open>WeekDay\<close>, \<open>MakeDay\<close>,
    \<open>MakeDate\<close>, \<open>UTC\<close>, \<open>TimeClip\<close>).
\<close>

subsection \<open>Numbers read from a Date\<close>

datatype jsnum = Num int | NaN

text \<open>\<open>a + b\<close> and \<open>a - b\<close>.\<close>

fun js_plus :: "jsnum \<Rightarrow> jsnum \<Rightarrow> jsnum" where
  "js_plus (Num a) (Num b) = Num (a + b)"
| "js_plus _ _ = NaN"

fun js_minus :: "jsnum \<Rightarrow> jsnum \<Rightarrow> jsnum" where
  "js_minus (Num a) (Num b) = Num (a - b)"
| "js_minus _ _ = NaN"

subsection \<open>The calendar of ECMA-262\<close>

definition msPerDay :: int where
  "msPerDay = 86400000"

definition DayFromYear :: "int \<Rightarrow> int" where
  "DayFromYear y =
     365 * (y - 1970) + (y - 1969) div 4 - (y - 1901) div 100 + (y - 1601) div 400"

definition DaysInYear :: "int \<Rightarrow> int" where
  "DaysInYear y =
     (if y mod 4 \<noteq> 0 then 365
      else if y mod 100 \<noteq> 0 then 366
      else if y mod 400 \<noteq> 0 then 365
      else 366)"

text \<open>
  ECMA-262 defines \<open>YearFromTime\<close> as the largest year whose first day is not after the
  given day. The estimate \<open>1970 + 400 * dn div 146097\<close> is off by at most one year, so one
  correction step computes it (lemma \<open>YearFromDay_bounds\<close> below).
\<close>

definition YearFromDay :: "int \<Rightarrow> int" where
  "YearFromDay dn =
     (let y = 1970 + (400 * dn) div 146097
      in if DayFromYear (y + 1) \<le> dn then y + 1
         else if dn < DayFromYear y then y - 1
         else y)"

definition InLeapYear :: "int \<Rightarrow> int" where
  "InLeapYear dn = (if DaysInYear (YearFromDay dn) = 366 then 1 else 0)"

definition DayWithinYear :: "int \<Rightarrow> int" where
  "DayWithinYear dn = dn - DayFromYear (YearFromDay dn)"

text \<open>The month table of \<open>MonthFromTime\<close>: \<open>d\<close> is the day within the year, \<open>l\<close> is 1 in a leap year.\<close>

definition MonthFromYearDay :: "int \<Rightarrow> int \<Rightarrow> int" where
  "MonthFromYearDay d l =
     (if d < 31 then 0
      else if d < 59 + l then 1
      else if d < 90 + l then 2
      else if d < 120 + l then 3
      else if d < 151 + l then 4
      else if d < 181 + l then 5
      else if d < 212 + l then 6
      else if d < 243 + l then 7
      else if d < 273 + l then 8
      else if d < 304 + l then 9
      else if d < 334 + l then 10
      else 11)"

text \<open>The table of \<open>DateFromTime\<close>, by month \<open>m\<close>.\<close>

definition DateFromYearDay :: "int \<Rightarrow> int \<Rightarrow> int \<Rightarrow> int" where
  "DateFromYearDay d l m =
     (if m = 0 then d + 1
      else if m = 1 then d - 30
      else if m = 2 then d - 58 - l
      else if m = 3 then d - 89 - l
      else if m = 4 then d - 119 - l
      else if m = 5 then d - 150 - l
      else if m = 6 then d - 180 - l
      else if m = 7 then d - 211 - l
      else if m = 8 then d - 242 - l
      else if m = 9 then d - 272 - l
      else if m = 10 then d - 303 - l
      else d - 333 - l)"

definition MonthFromDay :: "int \<Rightarrow> int" where
  "MonthFromDay dn = MonthFromYearDay (DayWithinYear dn) (InLeapYear dn)"

definition DateFromDay :: "int \<Rightarrow> int" where
  "DateFromDay dn = DateFromYearDay (DayWithinYear dn) (InLeapYear dn) (MonthFromDay dn)"

subsection \<open>The Date object\<close>

text \<open>
  The host's time zone, as far as \<open>Date\<close> uses it. \<open>z_tza lt\<close> is the offset in milliseconds
  that the host takes for the local time \<open>lt\<close> when it converts it to UTC (\<open>LocalTZA(lt, false)\<close>).
  \<open>z_skipped\<close> lists the stretches of local time that the zone skips, each with its first
  local millisecond and its length: a clock that reaches the first millisecond of a stretch
  shows the time after the stretch instead. ECMA-262 reads a skipped local time with the
  offset from before the transition, so the host holds it as the local time later by the
  length of the stretch.
\<close>

record Zone =
  z_tza :: "int \<Rightarrow> int"
  z_skipped :: "(int \<times> nat) list"

text \<open>\<open>d_local\<close> is the local time value of the date, \<open>None\<close> when the time value is \<open>NaN\<close>
  (an invalid date).\<close>

record Date =
  d_zone :: Zone
  d_local :: "int option"

definition land :: "Zone \<Rightarrow> int \<Rightarrow> int" where
  "land z lt =
     (case find (\<lambda>(a, len). a \<le> lt \<and> lt < a + int len) (z_skipped z) of
        None \<Rightarrow> lt
      | Some (a, len) \<Rightarrow> lt + int len)"

text \<open>\<open>TimeClip\<close> keeps a time value of at most 8.64e15 milliseconds on either side of the
  epoch.\<close>

definition in_range :: "Zone \<Rightarrow> int \<Rightarrow> bool" where
  "in_range z lt = (\<bar>lt - z_tza z lt\<bar> \<le> 8640000000000000)"

text \<open>The date that a setter leaves when it asks for the local time \<open>lt\<close>: the time value is
  \<open>TimeClip(UTC(lt))\<close>.\<close>

definition make_date :: "Zone \<Rightarrow> int \<Rightarrow> Date" where
  "make_date z lt =
     \<lparr>d_zone = z, d_local = (if in_range z lt then Some (land z lt) else None)\<rparr>"

text \<open>\<open>Day(t)\<close> is \<open>t div msPerDay\<close> and \<open>TimeWithinDay(t)\<close> is \<open>t mod msPerDay\<close>. A getter of an
  invalid date returns \<open>NaN\<close>.\<close>

definition getFullYear :: "Date \<Rightarrow> jsnum" where
  "getFullYear d =
     (case d_local d of None \<Rightarrow> NaN | Some t \<Rightarrow> Num (YearFromDay (t div msPerDay)))"

definition getMonth :: "Date \<Rightarrow> jsnum" where
  "getMonth d =
     (case d_local d of None \<Rightarrow> NaN | Some t \<Rightarrow> Num (MonthFromDay (t div msPerDay)))"

definition getDate :: "Date \<Rightarrow> jsnum" where
  "getDate d =
     (case d_local d of None \<Rightarrow> NaN | Some t \<Rightarrow> Num (DateFromDay (t div msPerDay)))"

text \<open>\<open>getDay\<close>: 0 is Sunday; 1970-01-01 was a Thursday.\<close>

definition getDay :: "Date \<Rightarrow> jsnum" where
  "getDay d =
     (case d_local d of None \<Rightarrow> NaN | Some t \<Rightarrow> Num ((t div msPerDay + 4) mod 7))"

text \<open>
  \<open>setDate v\<close> leaves an invalid date as it is. Otherwise it keeps year, month and time of
  day and asks for the day \<open>v\<close> counted from the first of the month, which need not lie in
  the month (\<open>MakeDate (MakeDay (year, month, v), TimeWithinDay (t))\<close>); \<open>NaN\<close> for \<open>v\<close> makes the
  date invalid.
\<close>

definition setDate :: "Date \<Rightarrow> jsnum \<Rightarrow> Date" where
  "setDate d v =
     (case d_local d of
        None \<Rightarrow> d
      | Some t \<Rightarrow>
          (case v of
             NaN \<Rightarrow> d\<lparr>d_local := None\<rparr>
           | Num dt \<Rightarrow>
               make_date (d_zone d)
                 ((t div msPerDay - (DateFromDay (t div msPerDay) - 1) + (dt - 1)) * msPerDay
                  + t mod msPerDay)))"

text \<open>\<open>setHours(0, 0, 0, 0)\<close>.\<close>

definition setHours0 :: "Date \<Rightarrow> Date" where
  "setHours0 d =
     (case d_local d of
        None \<Rightarrow> d
      | Some t \<Rightarrow> make_date (d_zone d) (t div msPerDay * msPerDay))"

subsection \<open>Strings of numbers\<close>

definition digit_char :: "nat \<Rightarrow> char" where
  "digit_char k = char_of (48 + k)"

fun digits :: "nat \<Rightarrow> string" where
  "digits n = (if n < 10 then [digit_char n] else digits (n div 10) @ [digit_char (n mod 10)])"

declare digits.simps [simp del]

text \<open>\<open>String(n)\<close> and template interpolation of an integer \<open>n\<close>.\<close>

definition String_int :: "int \<Rightarrow> string" where
  "String_int n = (if n < 0 then CHR ''-'' # digits (nat (- n)) else digits (nat n))"

text \<open>\<open>String(n)\<close> and template interpolation of a number.\<close>

fun num_str :: "jsnum \<Rightarrow> string" where
  "num_str (Num n) = String_int n"
| "num_str NaN = ''NaN''"

text \<open>\<open>s.padStart(len, "0")\<close>.\<close>

definition padStart0 :: "nat \<Rightarrow> string \<Rightarrow> string" where
  "padStart0 len s = replicate (len - length s) CHR ''0'' @ s"

subsection \<open>Date helpers\<close>

definition pad2 :: "jsnum \<Rightarrow> string" where
  "pad2 n = padStart0 2 (num_str n)"

definition dayKey :: "Date \<Rightarrow> string" where
  "dayKey d =
     num_str (getFullYear d) @ ''-'' @ pad2 (js_plus (getMonth d) (Num 1)) @ ''-''
     @ pad2 (getDate d)"

definition addDays :: "Date \<Rightarrow> int \<Rightarrow> Date" where
  "addDays base days = setDate base (js_plus (getDate base) (Num days))"

definition startOfWeekMonday :: "Date \<Rightarrow> Date" where
  "startOfWeekMonday d =
     (let day = getDay d;
          diff = (if day = Num 0 then Num (- 6) else js_minus (Num 1) day)
      in setHours0 (setDate d (js_plus (getDate d) diff)))"

definition weekKeysMonSun :: "Date \<Rightarrow> string list" where
  "weekKeysMonSun d =
     (let start = startOfWeekMonday d
      in map (\<lambda>i. dayKey (addDays start (int i))) [0..<7])"

text \<open>\<open>key.split("-")\<close>, and reading an element of the result (\<open>undefined\<close> past its end,
  which a template renders as the word).\<close>

fun split_on :: "char \<Rightarrow> string \<Rightarrow> string list" where
  "split_on c [] = [[]]"
| "split_on c (x # xs) =
     (if x = c then [] # split_on c xs
      else (case split_on c xs of [] \<Rightarrow> [[x]] | w # ws \<Rightarrow> (x # w) # ws))"

definition part_at :: "string list \<Rightarrow> nat \<Rightarrow> string" where
  "part_at parts i = (if i < length parts then parts ! i else ''undefined'')"

definition labelDate :: "string \<Rightarrow> string" where
  "labelDate key =
     (let parts = split_on CHR ''-'' key;
          m = part_at parts 1;
          d = part_at parts 2
      in d @ ''.'' @ m @ ''.'')"

datatype WeekdayKey = Mon | Tue | Wed | Thu | Fri | Sat | Sun

definition toWeekdayKeyFromDate :: "Date \<Rightarrow> WeekdayKey" where
  "toWeekdayKeyFromDate d =
     (let day = getDay d
      in if day = Num 0 then Sun
         else if day = Num 1 then Mon
         else if day = Num 2 then Tue
         else if day = Num 3 then Wed
         else if day = Num 4 then Thu
         else if day = Num 5 then Fri
         else Sat)"

subsection \<open>JavaScript values of a stored document\<close>

text \<open>\<open>JFieldValue\<close> is the sentinel object that \<open>serverTimestamp()\<close> returns.\<close>

datatype jsval =
    JUndefined
  | JNull
  | JBool bool
  | JNumber jsnum
  | JString string
  | JFieldValue

definition is_ws :: "char \<Rightarrow> bool" where
  "is_ws c = (of_char c \<in> {9, 10, 11, 12, 13, 32, 160 :: nat})"

text \<open>\<open>s.trim()\<close>.\<close>

definition trim :: "string \<Rightarrow> string" where
  "trim s = rev (dropWhile is_ws (rev (dropWhile is_ws s)))"

definition is_digit :: "char \<Rightarrow> bool" where
  "is_digit c = (48 \<le> (of_char c :: nat) \<and> (of_char c :: nat) \<le> 57)"

definition digits_value :: "string \<Rightarrow> nat" where
  "digits_value s = foldl (\<lambda>a c. 10 * a + (of_char c - 48)) 0 s"

text \<open>
  \<open>Number(s)\<close> for a string, on the integers: the empty or blank string is 0, an optionally
  signed run of decimal digits is its value, and every other string is taken to \<open>NaN\<close>
  (numerals with a fraction, an exponent or a radix prefix have no value in \<open>jsnum\<close>).
\<close>

definition StringToNumber :: "string \<Rightarrow> jsnum" where
  "StringToNumber s =
     (let t = trim s
      in if t = [] then Num 0
         else if list_all is_digit t then Num (int (digits_value t))
         else (case t of
                 [] \<Rightarrow> NaN
               | c # r \<Rightarrow>
                   if (c = CHR ''-'' \<or> c = CHR ''+'') \<and> r \<noteq> [] \<and> list_all is_digit r
                   then Num ((if c = CHR ''-'' then - 1 else 1) * int (digits_value r))
                   else NaN))"

fun js_String :: "jsval \<Rightarrow> string" where
  "js_String JUndefined = ''undefined''"
| "js_String JNull = ''null''"
| "js_String (JBool b) = (if b then ''true'' else ''false'')"
| "js_String (JNumber x) = num_str x"
| "js_String (JString s) = s"
| "js_String JFieldValue = ''[object Object]''"

fun js_Boolean :: "jsval \<Rightarrow> bool" where
  "js_Boolean JUndefined = False"
| "js_Boolean JNull = False"
| "js_Boolean (JBool b) = b"
| "js_Boolean (JNumber (Num n)) = (n \<noteq> 0)"
| "js_Boolean (JNumber NaN) = False"
| "js_Boolean (JString s) = (s \<noteq> [])"
| "js_Boolean JFieldValue = True"

fun js_Number :: "jsval \<Rightarrow> jsnum" where
  "js_Number JUndefined = NaN"
| "js_Number JNull = Num 0"
| "js_Number (JBool b) = Num (if b then 1 else 0)"
| "js_Number (JNumber x) = x"
| "js_Number (JString s) = StringToNumber s"
| "js_Number JFieldValue = NaN"

text \<open>\<open>v == null\<close>, and \<open>v ?? d\<close>.\<close>

definition is_nullish :: "jsval \<Rightarrow> bool" where
  "is_nullish v = (v = JNull \<or> v = JUndefined)"

definition nullish_or :: "jsval \<Rightarrow> jsval \<Rightarrow> jsval" where
  "nullish_or v d = (if is_nullish v then d else v)"

text \<open>A document's data is its list of fields; \<open>data?.k\<close> is \<open>undefined\<close> when the data is
  nullish or has no field \<open>k\<close>.\<close>

type_synonym DocData = "(string \<times> jsval) list"

definition get_prop :: "DocData option \<Rightarrow> string \<Rightarrow> jsval" where
  "get_prop data k =
     (case data of
        None \<Rightarrow> JUndefined
      | Some fs \<Rightarrow> (case map_of fs k of None \<Rightarrow> JUndefined | Some v \<Rightarrow> v))"

subsection \<open>Types\<close>

text \<open>
  \<open>Category\<close> and \<open>WorkoutPart\<close> are unions of string literals; at run time they are
  strings, and \<open>fromFirestoreTodo\<close> casts any stored string to them. The names of a record's
  fields carry a prefix: \<open>t_\<close> for \<open>Todo\<close> (\<open>t_id\<close> is \<open>id\<close>, \<open>t_done\<close> is \<open>done\<close>, and so on).
  An optional field is an \<open>option\<close>, \<open>None\<close> when it is absent or \<open>undefined\<close>.
\<close>

type_synonym Category = string
type_synonym WorkoutPart = string

abbreviation daily :: Category where "daily \<equiv> ''daily''"
abbreviation workout :: Category where "workout \<equiv> ''workout''"
abbreviation work :: Category where "work \<equiv> ''work''"

record Todo =
  t_id :: string
  t_text :: string
  t_done :: bool
  t_createdAt :: jsnum
  t_category :: Category
  t_doneAt :: "jsnum option"
  t_doneDay :: "string option"
  t_dueDay :: "string option"
  t_workoutPart :: "WorkoutPart option"

datatype Filter =
  FilterAll | FilterToday | FilterTomorrow | FilterWeek | FilterActive | FilterDone

record PlanRow =
  enabled :: bool
  part :: WorkoutPart

record WorkoutPlan =
  mon :: PlanRow
  tue :: PlanRow
  wed :: PlanRow
  thu :: PlanRow
  fri :: PlanRow
  sat :: PlanRow
  sun :: PlanRow

text \<open>\<open>plan[wd]\<close>.\<close>

fun plan_row :: "WorkoutPlan \<Rightarrow> WeekdayKey \<Rightarrow> PlanRow" where
  "plan_row p Mon = mon p"
| "plan_row p Tue = tue p"
| "plan_row p Wed = wed p"
| "plan_row p Thu = thu p"
| "plan_row p Fri = fri p"
| "plan_row p Sat = sat p"
| "plan_row p Sun = sun p"

definition partLabel :: "(WorkoutPart \<times> string) list" where
  "partLabel =
     [(''chest'', ''Chest''), (''back'', ''Back''), (''legs'', ''Legs''), (''arms'', ''Arms''),
      (''shoulders'', ''Shoulders''), (''core'', ''Core''), (''cardio'', ''Cardio'')]"

definition defaultPlan :: WorkoutPlan where
  "defaultPlan =
     \<lparr>mon = \<lparr>enabled = False, part = ''chest''\<rparr>,
      tue = \<lparr>enabled = False, part = ''back''\<rparr>,
      wed = \<lparr>enabled = False, part = ''legs''\<rparr>,
      thu = \<lparr>enabled = False, part = ''shoulders''\<rparr>,
      fri = \<lparr>enabled = False, part = ''arms''\<rparr>,
      sat = \<lparr>enabled = False, part = ''core''\<rparr>,
      sun = \<lparr>enabled = False, part = ''cardio''\<rparr>\<rparr>"

subsection \<open>Firestore mappers\<close>

definition opt_or_null :: "('a \<Rightarrow> jsval) \<Rightarrow> 'a option \<Rightarrow> jsval" where
  "opt_or_null f v = (case v of None \<Rightarrow> JNull | Some x \<Rightarrow> f x)"

definition toFirestoreTodo :: "Todo \<Rightarrow> DocData" where
  "toFirestoreTodo t =
     [(''text'', JString (t_text t)),
      (''done'', JBool (t_done t)),
      (''createdAt'', JNumber (t_createdAt t)),
      (''category'', JString (t_category t)),
      (''doneAt'', opt_or_null JNumber (t_doneAt t)),
      (''doneDay'', opt_or_null JString (t_doneDay t)),
      (''dueDay'', opt_or_null JString (t_dueDay t)),
      (''workoutPart'', opt_or_null JString (t_workoutPart t)),
      (''updatedAt'', JFieldValue)]"

text \<open>\<open>nowMs\<close> is the reading of \<open>Date.now()\<close>.\<close>

definition fromFirestoreTodo :: "int \<Rightarrow> string \<Rightarrow> DocData option \<Rightarrow> Todo" where
  "fromFirestoreTodo nowMs ident data =
     (let cat = js_String (nullish_or (get_prop data ''category'') (JString ''daily''))
      in \<lparr>t_id = ident,
          t_text = js_String (nullish_or (get_prop data ''text'') (JString [])),
          t_done = js_Boolean (nullish_or (get_prop data ''done'') (JBool False)),
          t_createdAt = js_Number (nullish_or (get_prop data ''createdAt'') (JNumber (Num nowMs))),
          t_category = cat,
          t_doneAt =
            (if is_nullish (get_prop data ''doneAt'') then None
             else Some (js_Number (get_prop data ''doneAt''))),
          t_doneDay =
            (if is_nullish (get_prop data ''doneDay'') then None
             else Some (js_String (get_prop data ''doneDay''))),
          t_dueDay =
            (if is_nullish (get_prop data ''dueDay'') then None
             else Some (js_String (get_prop data ''dueDay''))),
          t_workoutPart =
            (if is_nullish (get_prop data ''workoutPart'') then None
             else Some (js_String (get_prop data ''workoutPart'')))\<rparr>)"

subsection \<open>Chart helpers\<close>

text \<open>
  The numbers of the chart are binary64 numbers, taken as the reals they denote. \<open>ulp x\<close> is
  the distance between neighbouring binary64 numbers at \<open>x\<close>, and \<open>fl x\<close> is the binary64
  number nearest to \<open>x\<close>, the one with the even significand when two are equally near.
  Numbers too large or too small for the normal range of binary64 are outside the model.
\<close>

definition ulp :: "real \<Rightarrow> real" where
  "ulp x = 2 powr (of_int \<lfloor>log 2 \<bar>x\<bar>\<rfloor> - 52)"

definition round_even :: "real \<Rightarrow> int" where
  "round_even y =
     (let f = \<lfloor>y\<rfloor>;
          r = y - of_int f
      in if r < 1 / 2 then f
         else if 1 / 2 < r then f + 1
         else if even f then f
         else f + 1)"

definition fl :: "real \<Rightarrow> real" where
  "fl x = (if x = 0 then 0 else of_int (round_even (x / ulp x)) * ulp x)"

text \<open>
  \<open>Math.log10\<close> and \<open>Math.pow\<close> are taken to return the binary64 number nearest to the exact
  value, and \<open>Math.floor\<close> is exact; \<open>a / b\<close> and \<open>a * b\<close> round the exact quotient and product.
\<close>

definition Math_log10 :: "real \<Rightarrow> real" where
  "Math_log10 x = fl (log 10 x)"

definition Math_floor :: "real \<Rightarrow> real" where
  "Math_floor x = of_int \<lfloor>x\<rfloor>"

definition Math_pow :: "real \<Rightarrow> real \<Rightarrow> real" where
  "Math_pow b e = fl (b powr e)"

definition niceCeil :: "real \<Rightarrow> real" where
  "niceCeil n =
     (if n \<le> 10 then 10
      else if n \<le> 20 then 20
      else if n \<le> 50 then 50
      else if n \<le> 100 then 100
      else (let p = Math_pow 10 (Math_floor (Math_log10 n));
                m = fl (n / p)
            in if m \<le> 2 then fl (2 * p)
               else if m \<le> 5 then fl (5 * p)
               else fl (10 * p)))"

text \<open>The ceiling of the chart's axis: \<open>niceCeil(Math.max(1, Math.max(0, ...values)))\<close>.\<close>

definition chart_yMax :: "nat list \<Rightarrow> real" where
  "chart_yMax values = (let dataMax = fold max values 0 in niceCeil (real (max 1 dataMax)))"

subsection \<open>The state of the page and of its collaborators\<close>

text \<open>
  \<open>Home\<close> holds the state variables of the component that the operations below read or
  write (prefix \<open>s_\<close>; \<open>tab\<close>, \<open>syncing\<close> and \<open>planLoaded\<close> are left out), and the two stores the
  component writes to: \<open>s_cache\<close> is the value kept in \<open>localStorage\<close> under \<open>LS_KEY\<close>, held as
  the collection whose JSON text it is (\<open>None\<close> before anything was stored), and \<open>s_remote\<close> is
  the sequence of calls issued to the remote store, oldest first. \<open>s_user\<close> is the uid of the
  signed-in user, \<open>None\<close> when signed out.
\<close>

datatype RemoteCall =
    SetDocMerge string string DocData
  | UpdateDoc string string DocData
  | DeleteDoc string string

record Home =
  s_user :: "string option"
  s_category :: Category
  s_filter :: Filter
  s_text :: string
  s_due :: string
  s_workoutPart :: WorkoutPart
  s_inlineDay :: "string option"
  s_inlineText :: string
  s_todos :: "Todo list"
  s_loaded :: bool
  s_plan :: WorkoutPlan
  s_cache :: "Todo list option"
  s_remote :: "RemoteCall list"

text \<open>
  What an operation reads from its host: \<open>e_clock\<close> is the local time value of the present
  moment and \<open>e_zone\<close> the time zone, \<open>e_nowMs\<close> is \<open>Date.now()\<close>, \<open>e_uuid\<close> is
  \<open>crypto.randomUUID()\<close>, and \<open>e_parseDate s\<close> is \<open>new Date(s)\<close>, \<open>None\<close> for an invalid date.
\<close>

record Env =
  e_clock :: int
  e_zone :: Zone
  e_nowMs :: int
  e_uuid :: string
  e_parseDate :: "string \<Rightarrow> Date option"

text \<open>\<open>new Date()\<close>: the present moment, a valid date.\<close>

definition e_now :: "Env \<Rightarrow> Date" where
  "e_now env = \<lparr>d_zone = e_zone env, d_local = Some (e_clock env)\<rparr>"

text \<open>The effect on \<open>[todos, loaded]\<close>: once loaded, every new collection is written to the cache.\<close>

definition persist :: "Home \<Rightarrow> Home" where
  "persist st = (if \<not> s_loaded st then st else st\<lparr>s_cache := Some (s_todos st)\<rparr>)"

text \<open>\<open>setTodos(f)\<close>, followed by the effect that the new collection triggers.\<close>

definition setTodos :: "(Todo list \<Rightarrow> Todo list) \<Rightarrow> Home \<Rightarrow> Home" where
  "setTodos f st = persist (st\<lparr>s_todos := f (s_todos st)\<rparr>)"

definition upsertRemote :: "Todo \<Rightarrow> Home \<Rightarrow> Home" where
  "upsertRemote todo st =
     (case s_user st of
        None \<Rightarrow> st
      | Some uid \<Rightarrow>
          st\<lparr>s_remote := s_remote st @ [SetDocMerge uid (t_id todo) (toFirestoreTodo todo)]\<rparr>)"

text \<open>A \<open>Partial<Todo>\<close>: a field is \<open>None\<close> when the key is not in the object, and \<open>Some v\<close> when
  it is, with \<open>v = None\<close> for the value \<open>undefined\<close>.\<close>

record TodoPatch =
  p_text :: "string option option"
  p_done :: "bool option option"
  p_createdAt :: "jsnum option option"
  p_doneAt :: "jsnum option option"
  p_doneDay :: "string option option"
  p_dueDay :: "string option option"
  p_category :: "Category option option"
  p_workoutPart :: "WorkoutPart option option"

definition patch_field :: "string \<Rightarrow> ('a option \<Rightarrow> jsval) \<Rightarrow> 'a option option \<Rightarrow> DocData" where
  "patch_field k f v = (case v of None \<Rightarrow> [] | Some x \<Rightarrow> [(k, f x)])"

definition patchRemote :: "Env \<Rightarrow> string \<Rightarrow> TodoPatch \<Rightarrow> Home \<Rightarrow> Home" where
  "patchRemote env ident patch st =
     (case s_user st of
        None \<Rightarrow> st
      | Some uid \<Rightarrow>
          (let data =
                 [(''updatedAt'', JFieldValue)]
                 @ patch_field ''text'' (\<lambda>v. JString (case v of None \<Rightarrow> [] | Some x \<Rightarrow> x))
                     (p_text patch)
                 @ patch_field ''done'' (\<lambda>v. JBool (case v of None \<Rightarrow> False | Some b \<Rightarrow> b))
                     (p_done patch)
                 @ patch_field ''createdAt''
                     (\<lambda>v. JNumber (case v of None \<Rightarrow> Num (e_nowMs env) | Some n \<Rightarrow> n))
                     (p_createdAt patch)
                 @ patch_field ''doneAt'' (opt_or_null JNumber) (p_doneAt patch)
                 @ patch_field ''doneDay'' (opt_or_null JString) (p_doneDay patch)
                 @ patch_field ''dueDay'' (opt_or_null JString) (p_dueDay patch)
                 @ patch_field ''category''
                     (\<lambda>v. JString (case v of None \<Rightarrow> daily | Some c \<Rightarrow> c))
                     (p_category patch)
                 @ patch_field ''workoutPart'' (opt_or_null JString) (p_workoutPart patch)
           in st\<lparr>s_remote := s_remote st @ [UpdateDoc uid ident data]\<rparr>))"

definition deleteRemote :: "string \<Rightarrow> Home \<Rightarrow> Home" where
  "deleteRemote ident st =
     (case s_user st of
        None \<Rightarrow> st
      | Some uid \<Rightarrow> st\<lparr>s_remote := s_remote st @ [DeleteDoc uid ident]\<rparr>)"

subsection \<open>Derived: category filtering\<close>

definition todosInCat :: "Home \<Rightarrow> Todo list" where
  "todosInCat st = filter (\<lambda>t. t_category t = s_category st) (s_todos st)"

definition totalCount :: "Home \<Rightarrow> nat" where
  "totalCount st = length (todosInCat st)"

definition doneCount :: "Home \<Rightarrow> nat" where
  "doneCount st = length (filter t_done (todosInCat st))"

definition activeCount :: "Home \<Rightarrow> nat" where
  "activeCount st = totalCount st - doneCount st"






subsection \<open>Actions\<close>

definition addTodo :: "Env \<Rightarrow> Home \<Rightarrow> Home" where
  "addTodo env st =
     (if s_user st = None then st
      else
        (let trimmed = trim (s_text st)
         in if trimmed = [] then st
            else
              (let base =
                     \<lparr>t_id = e_uuid env, t_text = trimmed, t_done = False,
                      t_createdAt = Num (e_nowMs env), t_category = s_category st,
                      t_doneAt = None, t_doneDay = None, t_dueDay = None, t_workoutPart = None\<rparr>;
                   newTodo =
                     (if s_category st = workout
                      then base\<lparr>t_dueDay := Some (s_due st),
                                t_workoutPart := Some (s_workoutPart st)\<rparr>
                      else if s_category st = work
                      then base\<lparr>t_dueDay := Some (s_due st)\<rparr>
                      else base)
               in upsertRemote newTodo
                    ((setTodos (\<lambda>prev. newTodo # prev) st)\<lparr>s_text := []\<rparr>))))"

definition addTodoInline :: "Env \<Rightarrow> string \<Rightarrow> Home \<Rightarrow> Home" where
  "addTodoInline env day st =
     (if s_user st = None then st
      else
        (let trimmed = trim (s_inlineText st)
         in if trimmed = [] then st
            else
              (let base =
                     \<lparr>t_id = e_uuid env, t_text = trimmed, t_done = False,
                      t_createdAt = Num (e_nowMs env), t_category = s_category st,
                      t_doneAt = None, t_doneDay = None, t_dueDay = None, t_workoutPart = None\<rparr>;
                   newTodo =
                     (if s_category st = workout
                      then
                        (let wd = (case e_parseDate env day of
                                     None \<Rightarrow> Sat
                                   | Some d \<Rightarrow> toWeekdayKeyFromDate d);
                             planned = plan_row (s_plan st) wd;
                             part = (if enabled planned then part planned
                                     else s_workoutPart st)
                         in base\<lparr>t_dueDay := Some day, t_workoutPart := Some part\<rparr>)
                      else if s_category st = work
                      then base\<lparr>t_dueDay := Some day\<rparr>
                      else base)
               in upsertRemote newTodo
                    ((setTodos (\<lambda>prev. newTodo # prev) st)
                       \<lparr>s_inlineText := [], s_inlineDay := None\<rparr>))))"


definition removeTodo :: "string \<Rightarrow> Home \<Rightarrow> Home" where
  "removeTodo ident st = deleteRemote ident (setTodos (filter (\<lambda>t. t_id t \<noteq> ident)) st)"

definition clearDone :: "Home \<Rightarrow> Home" where
  "clearDone st =
     (let ids = map t_id (filter t_done (todosInCat st))
      in fold deleteRemote ids
           (setTodos (filter (\<lambda>t. \<not> (t_category t = s_category st \<and> t_done t))) st))"

subsection \<open>Filters (per category)\<close>

text \<open>\<open>a < b\<close> on strings compares code units, the first difference deciding.\<close>

fun str_lt :: "string \<Rightarrow> string \<Rightarrow> bool" where
  "str_lt [] [] = False"
| "str_lt [] (y # ys) = True"
| "str_lt (x # xs) [] = False"
| "str_lt (x # xs) (y # ys) =
     (if (of_char x :: nat) < of_char y then True
      else if (of_char y :: nat) < of_char x then False
      else str_lt xs ys)"

text \<open>
  \<open>Array.prototype.sort\<close> with a comparison function is stable, and takes a result that is
  \<open>NaN\<close> for 0: an element moves behind another only when the comparison is positive.
\<close>

fun cmp_pos :: "jsnum \<Rightarrow> bool" where
  "cmp_pos (Num n) = (0 < n)"
| "cmp_pos NaN = False"

fun sort_insert :: "('a \<Rightarrow> 'a \<Rightarrow> jsnum) \<Rightarrow> 'a \<Rightarrow> 'a list \<Rightarrow> 'a list" where
  "sort_insert cmp x [] = [x]"
| "sort_insert cmp x (y # ys) =
     (if cmp_pos (cmp x y) then y # sort_insert cmp x ys else x # y # ys)"

definition Array_sort :: "('a \<Rightarrow> 'a \<Rightarrow> jsnum) \<Rightarrow> 'a list \<Rightarrow> 'a list" where
  "Array_sort cmp xs = foldr (sort_insert cmp) xs []"

text \<open>\<open>t.dueDay ?? today\<close>.\<close>

definition due_or :: "string \<Rightarrow> Todo \<Rightarrow> string" where
  "due_or today t = (case t_dueDay t of None \<Rightarrow> today | Some k \<Rightarrow> k)"

definition cmp_done_created :: "Todo \<Rightarrow> Todo \<Rightarrow> jsnum" where
  "cmp_done_created a b =
     (if t_done a \<noteq> t_done b then (if t_done a then Num 1 else Num (- 1))
      else js_minus (t_createdAt b) (t_createdAt a))"

definition cmp_visible :: "string \<Rightarrow> Todo \<Rightarrow> Todo \<Rightarrow> jsnum" where
  "cmp_visible today a b =
     (let ad = due_or today a;
          bd = due_or today b
      in if str_lt ad bd then Num (- 1)
         else if str_lt bd ad then Num 1
         else cmp_done_created a b)"

definition visibleTodos :: "Env \<Rightarrow> Home \<Rightarrow> Todo list" where
  "visibleTodos env st =
     (let today = dayKey (e_now env);
          tomorrow = dayKey (addDays (e_now env) 1);
          weekSet = set (weekKeysMonSun (e_now env));
          f0 = todosInCat st;
          f1 = (if s_filter st = FilterActive then filter (\<lambda>t. \<not> t_done t) f0 else f0);
          f2 = (if s_filter st = FilterDone then filter t_done f1 else f1);
          f3 = (if s_filter st = FilterToday
                then filter (\<lambda>t. due_or today t = today) f2 else f2);
          f4 = (if s_filter st = FilterTomorrow
                then filter (\<lambda>t. due_or today t = tomorrow) f3 else f3);
          f5 = (if s_filter st = FilterWeek
                then filter (\<lambda>t. due_or today t \<in> weekSet) f4 else f4)
      in Array_sort (cmp_visible today) f5)"

subsection \<open>Weekly calendar and 14-day chart (per category)\<close>

text \<open>
  An object used as a table of counts is a map from its own keys. \<open>k in table\<close> is read as
  membership among the own keys: the names that every object inherits are not day keys,
  and a count stored under one of them is never read back.
\<close>

definition zero_counts :: "string list \<Rightarrow> (string \<rightharpoonup> nat)" where
  "zero_counts keys = map_of (map (\<lambda>k. (k, 0)) keys)"

definition count_at :: "(string \<rightharpoonup> nat) \<Rightarrow> string \<Rightarrow> nat" where
  "count_at table k = (case table k of None \<Rightarrow> 0 | Some n \<Rightarrow> n)"

text \<open>\<open>if (k && k in table) table[k] += 1\<close>, for an optional string \<open>k\<close>.\<close>

definition bump_if_key :: "string option \<Rightarrow> (string \<rightharpoonup> nat) \<Rightarrow> (string \<rightharpoonup> nat)" where
  "bump_if_key k table =
     (case k of
        None \<Rightarrow> table
      | Some key \<Rightarrow>
          if key \<noteq> [] \<and> table key \<noteq> None then table(key \<mapsto> count_at table key + 1)
          else table)"

definition week_planned :: "string list \<Rightarrow> Todo list \<Rightarrow> (string \<rightharpoonup> nat)" where
  "week_planned keys ts = fold (\<lambda>t. bump_if_key (t_dueDay t)) ts (zero_counts keys)"

definition done_per_day :: "string list \<Rightarrow> Todo list \<Rightarrow> (string \<rightharpoonup> nat)" where
  "done_per_day keys ts =
     fold (\<lambda>t table. if t_done t then bump_if_key (t_doneDay t) table else table) ts
       (zero_counts keys)"

text \<open>An entry of \<open>weekStats.arr\<close>, without \<open>wd\<close>, the weekday name in the host's locale. The
  loop of \<open>weekStats\<close> updates its two tables independently of each other, so each table is a
  fold of its own over the tasks.\<close>

record WeekDayStat =
  w_key :: string
  w_date :: string
  w_planned :: nat
  w_done :: nat
  w_planText :: "string option"

definition weekStats :: "Env \<Rightarrow> Home \<Rightarrow> WeekDayStat list" where
  "weekStats env st =
     (let keys = weekKeysMonSun (e_now env);
          planned = week_planned keys (todosInCat st);
          done_tab = done_per_day keys (todosInCat st)
      in map (\<lambda>k.
           (let wdKey = (case e_parseDate env k of
                           None \<Rightarrow> Sat
                         | Some d \<Rightarrow> toWeekdayKeyFromDate d);
                planRow = plan_row (s_plan st) wdKey;
                planText = (if s_category st = workout \<and> enabled planRow
                            then map_of partLabel (part planRow) else None)
            in \<lparr>w_key = k, w_date = labelDate k, w_planned = count_at planned k,
                w_done = count_at done_tab k, w_planText = planText\<rparr>)) keys)"

definition weekTasksByDay :: "Env \<Rightarrow> Home \<Rightarrow> (string \<rightharpoonup> Todo list)" where
  "weekTasksByDay env st =
     (let today = dayKey (e_now env);
          empty_days = map_of (map (\<lambda>k. (k, [])) (weekKeysMonSun (e_now env)));
          pushed =
            fold (\<lambda>t m. (let dueKey = due_or today t
                          in case m dueKey of
                               None \<Rightarrow> m
                             | Some l \<Rightarrow> m(dueKey \<mapsto> l @ [t])))
              (todosInCat st) empty_days
      in (\<lambda>k. map_option (Array_sort cmp_done_created) (pushed k)))"

text \<open>The running sums of \<open>last14\<close>, from the sum \<open>running\<close> so far.\<close>

fun running_sums :: "nat \<Rightarrow> nat list \<Rightarrow> nat list" where
  "running_sums running [] = []"
| "running_sums running (x # xs) = (running + x) # running_sums (running + x) xs"




subsection \<open>Sample inputs\<close>

text \<open>A host on UTC without skipped local times, its clock on Wednesday 2024-01-03 at 10:00
  (day 19725 after 1970-01-01), three tasks and a signed-in page; the closed instances of
  the theorems below are stated on them.\<close>

definition ex_zone :: Zone where
  "ex_zone = \<lparr>z_tza = (\<lambda>lt. 0), z_skipped = []\<rparr>"

definition ex_now :: Date where
  "ex_now = \<lparr>d_zone = ex_zone, d_local = Some 1704276000000\<rparr>"

definition ex_env :: Env where
  "ex_env = \<lparr>e_clock = 1704276000000, e_zone = ex_zone, e_nowMs = 1704276000000,
     e_uuid = ''id-4'', e_parseDate = (\<lambda>s. None)\<rparr>"
definition ex_full :: Todo where
  "ex_full = \<lparr>t_id = ''id-1'', t_text = ''Bench press'', t_done = True, t_createdAt = Num 1704100000000,
     t_category = workout, t_doneAt = Some (Num 1704190000000), t_doneDay = Some ''2024-01-02'',
     t_dueDay = Some ''2024-01-02'', t_workoutPart = Some ''chest''\<rparr>"
definition ex_milk :: Todo where
  "ex_milk = \<lparr>t_id = ''id-2'', t_text = ''Buy milk'', t_done = False, t_createdAt = Num 1704200000000,
     t_category = daily, t_doneAt = None, t_doneDay = None,
     t_dueDay = None, t_workoutPart = None\<rparr>"
definition ex_walk :: Todo where
  "ex_walk = \<lparr>t_id = ''id-3'', t_text = ''Walk'', t_done = True, t_createdAt = Num 1704250000000,
     t_category = daily, t_doneAt = Some (Num 1704270000000), t_doneDay = Some ''2024-01-03'',
     t_dueDay = None, t_workoutPart = None\<rparr>"
definition ex_home :: Home where
  "ex_home = \<lparr>s_user = Some ''uid-1'', s_category = daily, s_filter = FilterToday, s_text = '' Buy bread '',
     s_due = ''2024-01-04'', s_workoutPart = ''chest'', s_inlineDay = None, s_inlineText = ''Stretch'',
     s_todos = [ex_walk, ex_milk, ex_full], s_loaded = True, s_plan = defaultPlan,
     s_cache = Some [ex_walk, ex_milk, ex_full], s_remote = []\<rparr>"

text \<open>A signed-out page with an empty collection and a text in the form.\<close>

definition ex_signed_out :: Home where
  "ex_signed_out = \<lparr>s_user = None, s_category = daily, s_filter = FilterAll, s_text = ''Buy milk'',
     s_due = ''2024-01-03'', s_workoutPart = ''chest'', s_inlineDay = None, s_inlineText = [],
     s_todos = [], s_loaded = True, s_plan = defaultPlan, s_cache = Some [], s_remote = []\<rparr>"




text \<open>A work task due on 2024-01-04, and the page of the work category that holds it after a
  work task with no \<open>dueDay\<close>.\<close>

definition ex_undated :: Todo where
  "ex_undated =
     \<lparr>t_id = ''id-5'', t_text = ''Mail'', t_done = False, t_createdAt = Num 1704200000000,
      t_category = work, t_doneAt = None, t_doneDay = None, t_dueDay = None,
      t_workoutPart = None\<rparr>"

definition ex_due_tomorrow :: Todo where
  "ex_due_tomorrow =
     \<lparr>t_id = ''id-6'', t_text = ''Report'', t_done = False, t_createdAt = Num 1704210000000,
      t_category = work, t_doneAt = None, t_doneDay = None, t_dueDay = Some ''2024-01-04'',
      t_workoutPart = None\<rparr>"

definition ex_work :: Home where
  "ex_work = ex_home\<lparr>s_category := work, s_todos := [ex_undated, ex_due_tomorrow, ex_milk]\<rparr>"

text \<open>
  A zone shaped like Pacific/Apia at the end of 2011: the local day 2011-12-30 (day 15338) is
  skipped; the offset is 10 hours behind UTC before it and 14 hours ahead after it. Its
  clock stands on 2011-12-31 at 10:00 in the first environment and on 2012-01-02 at 10:00
  in the second. The page holds one daily task, done on 2011-12-31.
\<close>

definition ex_apia :: Zone where
  "ex_apia =
     \<lparr>z_tza = (\<lambda>lt. if lt < 1325289600000 then - 36000000 else 50400000),
      z_skipped = [(1325203200000, 86400000)]\<rparr>"

definition ex_apia_env :: Env where
  "ex_apia_env = \<lparr>e_clock = 1325325600000, e_zone = ex_apia, e_nowMs = 1325275200000,
     e_uuid = ''id-7'', e_parseDate = (\<lambda>s. None)\<rparr>"

definition ex_apia_later :: Env where
  "ex_apia_later = \<lparr>e_clock = 1325498400000, e_zone = ex_apia, e_nowMs = 1325448000000,
     e_uuid = ''id-8'', e_parseDate = (\<lambda>s. None)\<rparr>"


subsection \<open>Notions of the statements and of the proofs\<close>

text \<open>\<open>done_on ts k\<close>: at least one task of \<open>ts\<close> has \<open>done\<close> true and \<open>doneDay\<close> equal to the day
  key \<open>k\<close>. \<open>day_key n\<close> is the key of the calendar day \<open>n\<close> days after 1970-01-01.\<close>

definition done_on :: "Todo list \<Rightarrow> string \<Rightarrow> bool" where
  "done_on ts k = list_ex (\<lambda>t. t_done t \<and> t_doneDay t = Some k) ts"

definition day_key :: "int \<Rightarrow> string" where
  "day_key n =
     String_int (YearFromDay n) @ ''-'' @ pad2 (Num (MonthFromDay n + 1)) @ ''-''
     @ pad2 (Num (DateFromDay n))"

text \<open>\<open>whole_day z n\<close>: the host holds every local time of the calendar day \<open>n\<close>, and on that
  day: each is within the range of \<open>Date\<close>, and none is skipped to another day.\<close>

definition whole_day :: "Zone \<Rightarrow> int \<Rightarrow> bool" where
  "whole_day z n =
     (\<forall>m \<in> {0..<msPerDay}. in_range z (n * msPerDay + m) \<and>
                            land z (n * msPerDay + m) div msPerDay = n)"

section \<open>Properties of the calendar\<close>

lemma int_div_bounds: "0 < k \<Longrightarrow> k * (x div k) \<le> x \<and> x < k * (x div k) + (k::int)"
  using mult_div_mod_eq [of k x] pos_mod_bound [of k x] pos_mod_sign [of k x] by linarith

lemma div_succ_int:
  assumes k: "0 < (k::int)"
  shows "(x + 1) div k = x div k + (if (x + 1) mod k = 0 then 1 else 0)"
proof -
  define q r where "q = x div k" and "r = x mod k"
  have m: "x = k * q + r" by (simp add: q_def r_def)
  have b: "0 \<le> r" "r < k" using k by (simp_all add: r_def)
  show ?thesis
  proof (cases "r + 1 = k")
    case True
    then have e: "x + 1 = k * (q + 1) + 0" using m by (simp add: algebra_simps)
    have "(x + 1) div k = q + 1" by (rule int_div_pos_eq [OF e]) (use k in simp_all)
    moreover have "(x + 1) mod k = 0" by (rule int_mod_pos_eq [OF e]) (use k in simp_all)
    ultimately show ?thesis by (simp add: q_def)
  next
    case False
    then have lt: "r + 1 < k" using b by linarith
    have e: "x + 1 = k * q + (r + 1)" using m by simp
    have "(x + 1) div k = q" by (rule int_div_pos_eq [OF e]) (use b lt in simp_all)
    moreover have "(x + 1) mod k = r + 1" by (rule int_mod_pos_eq [OF e]) (use b lt in simp_all)
    ultimately show ?thesis using b by (simp add: q_def)
  qed
qed

lemma mod_of_mod0: "c dvd b \<Longrightarrow> y mod b = 0 \<Longrightarrow> y mod c = (0::int)"
  by (metis mod_mod_cancel mod_0)

lemma DayFromYear_step: "DayFromYear (y + 1) - DayFromYear y = DaysInYear y"
proof -
  have s4: "(y + 1 - 1969) div 4 = (y - 1969) div 4 + (if y mod 4 = 0 then 1 else 0)"
    using div_succ_int [of 4 "y - 1969"] mod_diff_right_eq [of y 1968 4]
    by (simp add: algebra_simps)
  have s100: "(y + 1 - 1901) div 100 = (y - 1901) div 100 + (if y mod 100 = 0 then 1 else 0)"
    using div_succ_int [of 100 "y - 1901"] mod_diff_right_eq [of y 1900 100]
    by (simp add: algebra_simps)
  have s400: "(y + 1 - 1601) div 400 = (y - 1601) div 400 + (if y mod 400 = 0 then 1 else 0)"
    using div_succ_int [of 400 "y - 1601"] mod_diff_right_eq [of y 1600 400]
    by (simp add: algebra_simps)
  have d1: "y mod 100 = 0 \<Longrightarrow> y mod 4 = 0" by (rule mod_of_mod0 [of 4 100]) simp_all
  have d2: "y mod 400 = 0 \<Longrightarrow> y mod 100 = 0" by (rule mod_of_mod0 [of 100 400]) simp_all
  show ?thesis
    unfolding DayFromYear_def DaysInYear_def s4 s100 s400 using d1 d2 by auto
qed

lemma DayFromYear_est:
  "146097 * (y - 1970) - 506 \<le> 400 * DayFromYear y"
  "400 * DayFromYear y \<le> 146097 * (y - 1970) + 589"
proof -
  define a b c where "a = (y - 1969) div 4" and "b = (y - 1901) div 100"
    and "c = (y - 1601) div 400"
  have ba: "4 * a \<le> y - 1969" "y - 1969 < 4 * a + 4"
    using int_div_bounds [of 4 "y - 1969"] by (simp_all add: a_def)
  have bb: "100 * b \<le> y - 1901" "y - 1901 < 100 * b + 100"
    using int_div_bounds [of 100 "y - 1901"] by (simp_all add: b_def)
  have bc: "400 * c \<le> y - 1601" "y - 1601 < 400 * c + 400"
    using int_div_bounds [of 400 "y - 1601"] by (simp_all add: c_def)
  have d: "DayFromYear y = 365 * (y - 1970) + a - b + c"
    by (simp add: DayFromYear_def a_def b_def c_def)
  show "146097 * (y - 1970) - 506 \<le> 400 * DayFromYear y"
    using ba bb bc unfolding d by simp
  show "400 * DayFromYear y \<le> 146097 * (y - 1970) + 589"
    using ba bb bc unfolding d by simp
qed

lemma YearFromDay_bounds:
  "DayFromYear (YearFromDay dn) \<le> dn \<and> dn < DayFromYear (YearFromDay dn + 1)"
proof -
  define y where "y = 1970 + (400 * dn) div 146097"
  have e: "146097 * (y - 1970) \<le> 400 * dn" "400 * dn < 146097 * (y - 1970) + 146097"
    using int_div_bounds [of 146097 "400 * dn"] by (simp_all add: y_def)
  have r: "YearFromDay dn = (if DayFromYear (y + 1) \<le> dn then y + 1
         else if dn < DayFromYear y then y - 1 else y)"
    by (simp add: YearFromDay_def y_def Let_def)
  have u: "dn < DayFromYear (y + 1 + 1)"
    using e DayFromYear_est(1) [of "y + 1 + 1"] by simp
  have l: "DayFromYear (y - 1) \<le> dn"
    using e DayFromYear_est(2) [of "y - 1"] by simp
  show ?thesis
    using u l by (simp add: r)
qed

lemma DayFromYear_mono: "a \<le> b \<Longrightarrow> DayFromYear a \<le> DayFromYear b"
proof (induction b rule: int_ge_induct)
  case base
  show ?case by simp
next
  case (step i)
  have "0 \<le> DaysInYear i" by (simp add: DaysInYear_def)
  then show ?case using step DayFromYear_step [of i] by linarith
qed

lemma YearFromDay_unique:
  assumes "DayFromYear y \<le> dn" "dn < DayFromYear (y + 1)"
  shows "YearFromDay dn = y"
proof -
  let ?z = "YearFromDay dn"
  have z: "DayFromYear ?z \<le> dn" "dn < DayFromYear (?z + 1)"
    using YearFromDay_bounds by simp_all
  have "\<not> ?z < y"
  proof
    assume "?z < y"
    then have "DayFromYear (?z + 1) \<le> DayFromYear y" by (intro DayFromYear_mono) simp
    then show False using z assms by linarith
  qed
  moreover have "\<not> y < ?z"
  proof
    assume "y < ?z"
    then have "DayFromYear (y + 1) \<le> DayFromYear ?z" by (intro DayFromYear_mono) simp
    then show False using z assms by linarith
  qed
  ultimately show ?thesis by linarith
qed

lemma DaysInYear_leap: "DaysInYear (YearFromDay dn) = 365 + InLeapYear dn"
  by (simp add: InLeapYear_def DaysInYear_def)

lemma InLeapYear_range: "InLeapYear dn = 0 \<or> InLeapYear dn = 1"
  by (simp add: InLeapYear_def)

lemma DayWithinYear_bounds:
  "0 \<le> DayWithinYear dn" "DayWithinYear dn < 365 + InLeapYear dn"
  using YearFromDay_bounds [of dn] DayFromYear_step [of "YearFromDay dn"]
    DaysInYear_leap [of dn]
  by (simp_all add: DayWithinYear_def)

lemma MonthFromYearDay_range: "0 \<le> MonthFromYearDay d l \<and> MonthFromYearDay d l \<le> 11"
  by (simp add: MonthFromYearDay_def)

lemma DateFromYearDay_range:
  "0 \<le> d \<Longrightarrow> d < 365 + l \<Longrightarrow> l = 0 \<or> l = 1 \<Longrightarrow>
   1 \<le> DateFromYearDay d l (MonthFromYearDay d l) \<and>
   DateFromYearDay d l (MonthFromYearDay d l) \<le> 31"
  unfolding MonthFromYearDay_def
  by (elim disjE; simp add: DateFromYearDay_def split: if_split)

lemma YearDay_fields_inj:
  "MonthFromYearDay a l = MonthFromYearDay b l \<Longrightarrow>
   DateFromYearDay a l (MonthFromYearDay a l) = DateFromYearDay b l (MonthFromYearDay b l) \<Longrightarrow>
   a = b"
  by (simp add: DateFromYearDay_def split: if_splits)

lemma MonthFromDay_range: "0 \<le> MonthFromDay dn \<and> MonthFromDay dn \<le> 11"
  by (simp add: MonthFromDay_def MonthFromYearDay_range)

lemma DateFromDay_range: "1 \<le> DateFromDay dn \<and> DateFromDay dn \<le> 31"
  unfolding DateFromDay_def MonthFromDay_def
  by (rule DateFromYearDay_range) (simp_all add: DayWithinYear_bounds InLeapYear_range)

lemma day_fields_inj:
  assumes y: "YearFromDay a = YearFromDay b"
    and m: "MonthFromDay a = MonthFromDay b"
    and d: "DateFromDay a = DateFromDay b"
  shows "a = b"
proof -
  have l: "InLeapYear a = InLeapYear b" by (simp add: InLeapYear_def y)
  have "DayWithinYear a = DayWithinYear b"
    using m d unfolding DateFromDay_def MonthFromDay_def l by (rule YearDay_fields_inj)
  then show ?thesis by (simp add: DayWithinYear_def y)
qed

lemma digit_char_0: "digit_char 0 = CHR ''0''"
  by code_simp

lemma of_char_digit_char: "i < 10 \<Longrightarrow> of_char (digit_char i) = (48 + i :: nat)"
  by (simp add: digit_char_def)

lemma digit_char_inj: "i < 10 \<Longrightarrow> j < 10 \<Longrightarrow> digit_char i = digit_char j \<Longrightarrow> i = j"
proof -
  assume a: "i < 10" "j < 10" "digit_char i = digit_char j"
  have "(of_char (digit_char i) :: nat) = of_char (digit_char j)" by (simp only: a(3))
  then have "48 + i = 48 + j"
    unfolding of_char_digit_char [OF a(1)] of_char_digit_char [OF a(2)] .
  then show ?thesis by simp
qed

lemma digit_char_not_minus: "i < 10 \<Longrightarrow> digit_char i \<noteq> CHR ''-''"
proof
  assume a: "i < 10" "digit_char i = CHR ''-''"
  have "of_char (CHR ''-'') = (48 + i :: nat)"
    using of_char_digit_char [OF a(1)] unfolding a(2) .
  then show False by simp
qed

lemma digits_nonempty: "digits n \<noteq> []"
  by (subst digits.simps) simp

lemma digits_hd_not_minus: "hd (digits n) \<noteq> CHR ''-''"
proof (induction n rule: digits.induct)
  case (1 n)
  show ?case
  proof (cases "n < 10")
    case True
    then show ?thesis by (subst digits.simps) (simp add: digit_char_not_minus)
  next
    case False
    then show ?thesis using 1 by (subst digits.simps) (simp add: digits_nonempty)
  qed
qed

lemma digit_char_not_N: "i < 10 \<Longrightarrow> digit_char i \<noteq> CHR ''N''"
proof
  assume a: "i < 10" "digit_char i = CHR ''N''"
  have "of_char (CHR ''N'') = (48 + i :: nat)"
    using of_char_digit_char [OF a(1)] unfolding a(2) .
  then show False using a(1) by simp
qed

lemma digits_hd_not_N: "hd (digits n) \<noteq> CHR ''N''"
proof (induction n rule: digits.induct)
  case (1 n)
  show ?case
  proof (cases "n < 10")
    case True
    then show ?thesis by (subst digits.simps) (simp add: digit_char_not_N)
  next
    case False
    then show ?thesis using 1 by (subst digits.simps) (simp add: digits_nonempty)
  qed
qed

lemma String_int_hd_not_N: "hd (String_int n) \<noteq> CHR ''N''"
  by (simp add: String_int_def digits_hd_not_N)

lemma String_int_nonempty: "String_int n \<noteq> []"
  by (simp add: String_int_def digits_nonempty)

lemma digits_inj: "digits a = digits b \<Longrightarrow> a = b"
proof (induction a arbitrary: b rule: digits.induct)
  case (1 n)
  show ?case
  proof (cases "n < 10")
    case True
    then have dn: "digits n = [digit_char n]" by (subst digits.simps) simp
    show ?thesis
    proof (cases "b < 10")
      case True
      then have "digits b = [digit_char b]" by (subst digits.simps) simp
      then show ?thesis using dn "1.prems" \<open>n < 10\<close> True by (simp add: digit_char_inj)
    next
      case False
      then have "digits b = digits (b div 10) @ [digit_char (b mod 10)]"
        by (subst digits.simps) simp
      then show ?thesis using dn "1.prems" digits_nonempty [of "b div 10"] by simp
    qed
  next
    case False
    then have dn: "digits n = digits (n div 10) @ [digit_char (n mod 10)]"
      by (subst digits.simps) simp
    show ?thesis
    proof (cases "b < 10")
      case True
      then have "digits b = [digit_char b]" by (subst digits.simps) simp
      then show ?thesis using dn "1.prems" digits_nonempty [of "n div 10"] by simp
    next
      case b: False
      then have "digits b = digits (b div 10) @ [digit_char (b mod 10)]"
        by (subst digits.simps) simp
      then have e: "digits (n div 10) = digits (b div 10)"
        "digit_char (n mod 10) = digit_char (b mod 10)"
        using dn "1.prems" by simp_all
      have "n div 10 = b div 10" using "1.IH" [OF False e(1)] .
      moreover have "n mod 10 = b mod 10" using e(2) by (intro digit_char_inj) simp_all
      ultimately show ?thesis by (metis div_mult_mod_eq)
    qed
  qed
qed

lemma String_int_inj: "String_int a = String_int b \<Longrightarrow> a = b"
proof -
  assume e: "String_int a = String_int b"
  have ne: "CHR ''-'' # digits x \<noteq> digits y" for x y
    using digits_hd_not_minus [of y] digits_nonempty [of y] by (cases "digits y") auto
  show ?thesis
  proof (cases "a < 0")
    case True
    show ?thesis
    proof (cases "b < 0")
      case b: True
      then have "nat (- a) = nat (- b)" using e True by (simp add: String_int_def digits_inj)
      then show ?thesis using True b by simp
    next
      case False
      then show ?thesis using e True ne by (simp add: String_int_def)
    qed
  next
    case False
    show ?thesis
    proof (cases "b < 0")
      case True
      then show ?thesis using e False ne [of "nat (- b)" "nat a"] by (simp add: String_int_def)
    next
      case b: False
      then have "nat a = nat b" using e False by (simp add: String_int_def digits_inj)
      then show ?thesis using False b by simp
    qed
  qed
qed

lemma digits_small: "k < 10 \<Longrightarrow> digits k = [digit_char k]"
  by (subst digits.simps) simp

lemma digits_two: "10 \<le> k \<Longrightarrow> k < 100 \<Longrightarrow> digits k = [digit_char (k div 10), digit_char (k mod 10)]"
  by (subst digits.simps) (simp add: digits_small)

lemma pad2_two_digits:
  assumes "0 \<le> n" "n < 100"
  shows "pad2 (Num n) = [digit_char (nat n div 10), digit_char (nat n mod 10)]"
proof (cases "n < 10")
  case True
  then have k: "nat n < 10" using assms by linarith
  show ?thesis using assms k
    by (simp add: pad2_def padStart0_def String_int_def digits_small digit_char_0)
next
  case False
  then have k: "10 \<le> nat n" "nat n < 100" using assms by linarith+
  show ?thesis using assms
    by (simp add: pad2_def padStart0_def String_int_def digits_two [OF k])
qed

lemma pad2_inj:
  assumes "0 \<le> a" "a < 100" "0 \<le> b" "b < 100" "pad2 (Num a) = pad2 (Num b)"
  shows "a = b"
proof -
  have "digit_char (nat a div 10) = digit_char (nat b div 10)"
    "digit_char (nat a mod 10) = digit_char (nat b mod 10)"
    using assms by (simp_all add: pad2_two_digits)
  then have "nat a div 10 = nat b div 10" "nat a mod 10 = nat b mod 10"
    using assms by (auto intro!: digit_char_inj)
  then have "nat a = nat b" by (metis div_mult_mod_eq)
  then show ?thesis using assms by simp
qed

section \<open>Day keys\<close>

lemma day_key_inj: "day_key a = day_key b \<Longrightarrow> a = b"
proof -
  assume e: "day_key a = day_key b"
  have ma: "0 \<le> MonthFromDay x + 1" "MonthFromDay x + 1 < 100" for x
    using MonthFromDay_range [of x] by simp_all
  have da: "0 \<le> DateFromDay x" "DateFromDay x < 100" for x
    using DateFromDay_range [of x] by simp_all
  define ta where "ta = ''-'' @ pad2 (Num (MonthFromDay a + 1)) @ ''-'' @ pad2 (Num (DateFromDay a))"
  define tb where "tb = ''-'' @ pad2 (Num (MonthFromDay b + 1)) @ ''-'' @ pad2 (Num (DateFromDay b))"
  have len: "length ta = length tb"
    by (simp add: ta_def tb_def pad2_two_digits ma da)
  have "String_int (YearFromDay a) @ ta = String_int (YearFromDay b) @ tb"
    using e by (simp add: day_key_def ta_def tb_def)
  then have y: "String_int (YearFromDay a) = String_int (YearFromDay b)" and t: "ta = tb"
    using len by (simp_all add: append_eq_append_conv)
  define ua where "ua = ''-'' @ pad2 (Num (DateFromDay a))"
  define ub where "ub = ''-'' @ pad2 (Num (DateFromDay b))"
  have l2: "length ua = length ub"
    by (simp add: ua_def ub_def pad2_two_digits da)
  from t have "pad2 (Num (MonthFromDay a + 1)) @ ua = pad2 (Num (MonthFromDay b + 1)) @ ub"
    by (simp add: ta_def tb_def ua_def ub_def)
  then have m: "pad2 (Num (MonthFromDay a + 1)) = pad2 (Num (MonthFromDay b + 1))" and "ua = ub"
    using l2 by (simp_all add: append_eq_append_conv)
  then have d: "pad2 (Num (DateFromDay a)) = pad2 (Num (DateFromDay b))"
    by (simp add: ua_def ub_def)
  have y': "YearFromDay a = YearFromDay b" using y by (rule String_int_inj)
  have "MonthFromDay a + 1 = MonthFromDay b + 1"
    using ma [of a] ma [of b] m by (intro pad2_inj)
  then have m': "MonthFromDay a = MonthFromDay b" by linarith
  have d': "DateFromDay a = DateFromDay b"
    using da [of a] da [of b] d by (intro pad2_inj)
  show ?thesis using y' m' d' by (rule day_fields_inj)
qed

lemma day_key_eq_iff: "day_key a = day_key b \<longleftrightarrow> a = b"
  using day_key_inj by blast

lemma day_key_nonempty: "day_key n \<noteq> []"
  by (simp add: day_key_def String_int_nonempty)

lemma day_key_not_NaN: "day_key n \<noteq> ''NaN-NaN-NaN''"
proof
  assume "day_key n = ''NaN-NaN-NaN''"
  then have "hd (day_key n) = CHR ''N''" by simp
  moreover have "hd (day_key n) = hd (String_int (YearFromDay n))"
    by (simp add: day_key_def String_int_nonempty)
  ultimately show False using String_int_hd_not_N [of "YearFromDay n"] by simp
qed

lemma dayKey_valid: "d_local d = Some t \<Longrightarrow> dayKey d = day_key (t div msPerDay)"
  by (simp add: dayKey_def day_key_def getFullYear_def getMonth_def getDate_def)

lemma dayKey_invalid: "d_local d = None \<Longrightarrow> dayKey d = ''NaN-NaN-NaN''"
  by (simp add: dayKey_def getFullYear_def getMonth_def getDate_def pad2_def padStart0_def)

lemma dayKey_nonempty: "dayKey d \<noteq> []"
  by (cases "d_local d") (simp_all add: dayKey_valid dayKey_invalid day_key_nonempty)


section \<open>The Firestore mappers\<close>

lemma get_prop_simps:
  "get_prop (Some ((k, v) # fs)) k' = (if k = k' then v else get_prop (Some fs) k')"
  "get_prop (Some []) k' = JUndefined"
  by (simp_all add: get_prop_def)

text \<open>
  Claim C6. For a task whose optional fields are all present, reading back the document
  that \<open>toFirestoreTodo\<close> writes, under the task's own id, gives the task again, at
  whatever time it is read. The document's \<open>updatedAt\<close> stamp is not read.
\<close>

theorem fromFirestoreTodo_toFirestoreTodo:
  fixes t :: Todo
  assumes "t_doneAt t \<noteq> None" "t_doneDay t \<noteq> None" "t_dueDay t \<noteq> None"
    "t_workoutPart t \<noteq> None"
  shows "fromFirestoreTodo nowMs (t_id t) (Some (toFirestoreTodo t)) = t"
  using assms
  by (cases t)
    (auto simp: fromFirestoreTodo_def toFirestoreTodo_def get_prop_simps nullish_or_def
      is_nullish_def opt_or_null_def)

text \<open>The instance at the sample workout task.\<close>

theorem fromFirestoreTodo_toFirestoreTodo_witness:
  "t_doneAt ex_full \<noteq> None \<and> t_doneDay ex_full \<noteq> None \<and> t_dueDay ex_full \<noteq> None \<and>
   t_workoutPart ex_full \<noteq> None \<and>
   fromFirestoreTodo 0 ''id-1'' (Some (toFirestoreTodo ex_full)) = ex_full"
  using fromFirestoreTodo_toFirestoreTodo [of ex_full 0]
  by (simp add: ex_full_def)


section \<open>The store\<close>

lemma s_persist [simp]:
  "s_todos (persist st) = s_todos st" "s_user (persist st) = s_user st"
  "s_remote (persist st) = s_remote st" "s_category (persist st) = s_category st"
  "s_loaded (persist st) = s_loaded st"
  "s_cache (persist st) = (if s_loaded st then Some (s_todos st) else s_cache st)"
  by (simp_all add: persist_def)

lemma s_setTodos [simp]:
  "s_todos (setTodos f st) = f (s_todos st)" "s_user (setTodos f st) = s_user st"
  "s_remote (setTodos f st) = s_remote st" "s_category (setTodos f st) = s_category st"
  "s_loaded (setTodos f st) = s_loaded st"
  "s_cache (setTodos f st) = (if s_loaded st then Some (f (s_todos st)) else s_cache st)"
  by (simp_all add: setTodos_def)

lemma s_deleteRemote [simp]:
  "s_todos (deleteRemote i st) = s_todos st" "s_user (deleteRemote i st) = s_user st"
  "s_category (deleteRemote i st) = s_category st" "s_loaded (deleteRemote i st) = s_loaded st"
  "s_cache (deleteRemote i st) = s_cache st"
  by (simp_all add: deleteRemote_def split: option.splits)

lemma s_fold_deleteRemote [simp]:
  "s_todos (fold deleteRemote ids st) = s_todos st"
  "s_user (fold deleteRemote ids st) = s_user st"
  "s_category (fold deleteRemote ids st) = s_category st"
  "s_loaded (fold deleteRemote ids st) = s_loaded st"
  "s_cache (fold deleteRemote ids st) = s_cache st"
  by (induction ids arbitrary: st) simp_all

lemma s_upsertRemote [simp]:
  "s_todos (upsertRemote t st) = s_todos st" "s_user (upsertRemote t st) = s_user st"
  "s_category (upsertRemote t st) = s_category st" "s_loaded (upsertRemote t st) = s_loaded st"
  "s_cache (upsertRemote t st) = s_cache st"
  "s_remote (upsertRemote t st) =
     (case s_user st of None \<Rightarrow> s_remote st
      | Some uid \<Rightarrow> s_remote st @ [SetDocMerge uid (t_id t) (toFirestoreTodo t)])"
  by (simp_all add: upsertRemote_def split: option.splits)

lemma s_patchRemote [simp]:
  "s_todos (patchRemote env i p st) = s_todos st" "s_user (patchRemote env i p st) = s_user st"
  "s_category (patchRemote env i p st) = s_category st"
  "s_loaded (patchRemote env i p st) = s_loaded st"
  "s_cache (patchRemote env i p st) = s_cache st"
  by (simp_all add: patchRemote_def Let_def split: option.splits)

lemma s_todos_clearDone:
  "s_todos (clearDone st) = filter (\<lambda>t. \<not> (t_category t = s_category st \<and> t_done t)) (s_todos st)"
  by (simp add: clearDone_def Let_def)

text \<open>
  Claim C9. After \<open>clearDone\<close> a task that is done and of the selected category occurs no
  more in the collection, every other task occurs as often as before, and the tasks that
  remain keep their order.
\<close>

theorem clearDone_removes_exactly:
  "(\<forall>t. count (mset (s_todos (clearDone st))) t =
        (if t_done t \<and> t_category t = s_category st then 0 else count (mset (s_todos st)) t)) \<and>
   subseq (s_todos (clearDone st)) (s_todos st)"
  by (auto simp: s_todos_clearDone count_mset_0_iff)

text \<open>The instance at the sample page: of its three tasks, the done daily one goes.\<close>

theorem clearDone_removes_exactly_witness:
  "s_todos (clearDone ex_home) = [ex_milk, ex_full] \<and>
   count (mset (s_todos (clearDone ex_home))) ex_walk = 0 \<and>
   count (mset (s_todos (clearDone ex_home))) ex_milk = count (mset (s_todos ex_home)) ex_milk \<and>
   count (mset (s_todos (clearDone ex_home))) ex_full = count (mset (s_todos ex_home)) ex_full"
  using clearDone_removes_exactly [of ex_home]
  by (simp add: s_todos_clearDone ex_home_def ex_walk_def ex_milk_def ex_full_def)





lemma e_now_ex_env [simp]: "e_now ex_env = ex_now"
  by (simp add: e_now_def ex_env_def ex_now_def)

lemma ex_env_fields [simp]: "e_nowMs ex_env = 1704276000000" "e_uuid ex_env = ''id-4''"
  by (simp_all add: ex_env_def)



lemma trim_ex [simp]: "trim '' Buy bread '' = ''Buy bread''" "trim ''Stretch'' = ''Stretch''"
  "trim ''Buy milk'' = ''Buy milk''"
  by (simp_all add: trim_def is_ws_def)

text \<open>
  Claim C10. \<open>addTodo\<close> and \<open>addTodoInline\<close> leave the collection as it is when nobody is signed
  in or the text is blank; otherwise they put one new task in front of it, of the selected
  category, whose \<open>dueDay\<close> is present exactly when the category is work or workout and
  whose \<open>workoutPart\<close> is present exactly when the category is workout.
\<close>

theorem added_task_fields:
  "(if s_user st = None \<or> trim (s_text st) = [] then s_todos (addTodo env st) = s_todos st
    else \<exists>t. s_todos (addTodo env st) = t # s_todos st \<and> t_category t = s_category st \<and>
           (t_dueDay t \<noteq> None \<longleftrightarrow> t_category t = work \<or> t_category t = workout) \<and>
           (t_workoutPart t \<noteq> None \<longleftrightarrow> t_category t = workout)) \<and>
   (if s_user st = None \<or> trim (s_inlineText st) = []
    then s_todos (addTodoInline env day st) = s_todos st
    else \<exists>t. s_todos (addTodoInline env day st) = t # s_todos st \<and>
           t_category t = s_category st \<and>
           (t_dueDay t \<noteq> None \<longleftrightarrow> t_category t = work \<or> t_category t = workout) \<and>
           (t_workoutPart t \<noteq> None \<longleftrightarrow> t_category t = workout))"
proof -
  have a: "s_user st = None \<or> trim (s_text st) = [] \<Longrightarrow>
      s_todos (addTodo env st) = s_todos st"
    by (auto simp: addTodo_def Let_def)
  have b: "s_user st = None \<or> trim (s_inlineText st) = [] \<Longrightarrow>
      s_todos (addTodoInline env day st) = s_todos st"
    by (auto simp: addTodoInline_def Let_def)
  have c: "\<exists>t. s_todos (addTodo env st) = t # s_todos st \<and> t_category t = s_category st \<and>
           (t_dueDay t \<noteq> None \<longleftrightarrow> t_category t = work \<or> t_category t = workout) \<and>
           (t_workoutPart t \<noteq> None \<longleftrightarrow> t_category t = workout)"
    if "s_user st \<noteq> None" "trim (s_text st) \<noteq> []"
    using that by (simp add: addTodo_def Let_def)
  have d: "\<exists>t. s_todos (addTodoInline env day st) = t # s_todos st \<and>
           t_category t = s_category st \<and>
           (t_dueDay t \<noteq> None \<longleftrightarrow> t_category t = work \<or> t_category t = workout) \<and>
           (t_workoutPart t \<noteq> None \<longleftrightarrow> t_category t = workout)"
    if "s_user st \<noteq> None" "trim (s_inlineText st) \<noteq> []"
    using that by (simp add: addTodoInline_def Let_def)
  show ?thesis using a b c d by (simp del: not_None_eq)
qed

text \<open>The instance at the sample page: the category is daily and a due date is selected,
  and the new task has no \<open>dueDay\<close>.\<close>

theorem added_task_fields_witness:
  "s_user ex_home \<noteq> None \<and> trim (s_text ex_home) \<noteq> [] \<and> s_category ex_home = daily \<and>
   s_due ex_home = ''2024-01-04'' \<and>
   (\<exists>t. s_todos (addTodo ex_env ex_home) = t # s_todos ex_home \<and> t_dueDay t = None \<and>
        t_workoutPart t = None) \<and>
   (\<exists>t. s_todos (addTodoInline ex_env ''2024-01-05'' ex_home) = t # s_todos ex_home \<and>
        t_dueDay t = None \<and> t_workoutPart t = None)"
proof -
  have h: "s_user ex_home \<noteq> None" "trim (s_text ex_home) \<noteq> []"
    "trim (s_inlineText ex_home) \<noteq> []" "s_category ex_home = daily"
    "s_due ex_home = ''2024-01-04''"
    by (simp_all add: ex_home_def)
  show ?thesis
    using h added_task_fields [of ex_home ex_env "''2024-01-05''"]
    by (auto simp del: not_None_eq)
qed

text \<open>
  Claim C1, as stated, fails: on the signed-out page with the text \<open>Buy milk\<close>, category daily
  and an empty collection, the collection and the cache are still empty after \<open>addTodo\<close>.
\<close>

theorem addTodo_signed_out_counterexample:
  "s_user ex_signed_out = None \<and> s_text ex_signed_out = ''Buy milk'' \<and>
   s_category ex_signed_out = daily \<and>
   s_todos (addTodo ex_env ex_signed_out) = [] \<and>
   s_cache (addTodo ex_env ex_signed_out) = Some []"
  by (simp add: addTodo_def ex_signed_out_def)

text \<open>
  Claim C1, amended. Signed out, \<open>addTodo\<close> changes nothing: the collection and the cache stay
  as they were and no call to the remote store is issued. Signed in, on a loaded page and
  with a text that is not blank, the new task is put in front of the collection, the new
  collection is written to the cache, and one upsert of the task is issued.
\<close>

theorem addTodo_guarded_by_session:
  "(s_user st = None \<longrightarrow> addTodo env st = st) \<and>
   (\<forall>uid. s_user st = Some uid \<and> s_loaded st \<and> trim (s_text st) \<noteq> [] \<longrightarrow>
      (\<exists>t. t_id t = e_uuid env \<and> t_text t = trim (s_text st) \<and> \<not> t_done t \<and>
           t_category t = s_category st \<and>
           s_todos (addTodo env st) = t # s_todos st \<and>
           s_cache (addTodo env st) = Some (t # s_todos st) \<and>
           s_remote (addTodo env st) =
             s_remote st @ [SetDocMerge uid (t_id t) (toFirestoreTodo t)]))"
  by (simp add: addTodo_def Let_def)

text \<open>The instances at the signed-out and at the signed-in sample page.\<close>

theorem addTodo_guarded_by_session_witness:
  "s_user ex_signed_out = None \<and> addTodo ex_env ex_signed_out = ex_signed_out \<and>
   s_user ex_home = Some ''uid-1'' \<and> s_loaded ex_home \<and> trim (s_text ex_home) \<noteq> [] \<and>
   (\<exists>t. t_text t = ''Buy bread'' \<and>
        s_todos (addTodo ex_env ex_home) = t # s_todos ex_home \<and>
        s_cache (addTodo ex_env ex_home) = Some (t # s_todos ex_home) \<and>
        s_remote (addTodo ex_env ex_home) =
          [SetDocMerge ''uid-1'' ''id-4'' (toFirestoreTodo t)])"
proof -
  have o: "s_user ex_signed_out = None" by (simp add: ex_signed_out_def)
  have h: "s_user ex_home = Some ''uid-1''" "s_loaded ex_home" "trim (s_text ex_home) \<noteq> []"
    "trim (s_text ex_home) = ''Buy bread''" "s_remote ex_home = []" "e_uuid ex_env = ''id-4''"
    by (simp_all add: ex_home_def)
  show ?thesis
    using o h addTodo_guarded_by_session [of ex_signed_out ex_env]
      addTodo_guarded_by_session [of ex_home ex_env]
    by auto
qed


section \<open>Dates of a zone\<close>

lemma land_ge: "lt \<le> land z lt"
  by (simp add: land_def split: option.splits prod.splits)

lemma d_zone_make_date [simp]: "d_zone (make_date z lt) = z"
  by (simp add: make_date_def)

lemma make_date_out_of_range: "\<not> in_range z lt \<Longrightarrow> d_local (make_date z lt) = None"
  by (simp add: make_date_def)

lemma make_date_in_range: "in_range z lt \<Longrightarrow> d_local (make_date z lt) = Some (land z lt)"
  by (simp add: make_date_def)

lemma msPerDay_pos [simp]: "0 < msPerDay"
  by (simp add: msPerDay_def)

lemma day_of_sum: "0 \<le> m \<Longrightarrow> m < msPerDay \<Longrightarrow> (n * msPerDay + m) div msPerDay = n"
  by simp

lemma make_date_whole_day:
  assumes "whole_day z n"
  shows "\<exists>u. d_local (make_date z (n * msPerDay + t mod msPerDay)) = Some u \<and>
             u div msPerDay = n"
proof -
  have "t mod msPerDay \<in> {0..<msPerDay}" by simp
  then have "in_range z (n * msPerDay + t mod msPerDay) \<and>
             land z (n * msPerDay + t mod msPerDay) div msPerDay = n"
    using assms unfolding whole_day_def by blast
  then show ?thesis by (simp add: make_date_in_range)
qed

lemma setDate_Num:
  "d_local d = Some t \<Longrightarrow>
   setDate d (Num v) =
     make_date (d_zone d)
       ((t div msPerDay - DateFromDay (t div msPerDay) + v) * msPerDay + t mod msPerDay)"
  by (simp add: setDate_def algebra_simps)

lemma addDays_valid:
  "d_local d = Some t \<Longrightarrow>
   addDays d n = make_date (d_zone d) ((t div msPerDay + n) * msPerDay + t mod msPerDay)"
  by (simp add: addDays_def getDate_def setDate_Num)


lemma dayKey_addDays_whole_day:
  assumes "d_local d = Some t" "whole_day (d_zone d) (t div msPerDay + n)"
  shows "dayKey (addDays d n) = day_key (t div msPerDay + n)"
proof -
  obtain u where "d_local (addDays d n) = Some u" "u div msPerDay = t div msPerDay + n"
    using make_date_whole_day [OF assms(2), of t] addDays_valid [OF assms(1), of n] by auto
  then show ?thesis using dayKey_valid by metis
qed

lemma e_now_fields [simp]: "d_local (e_now env) = Some (e_clock env)"
  "d_zone (e_now env) = e_zone env"
  by (simp_all add: e_now_def)


section \<open>The streak\<close>


lemma done_on_Nil [simp]: "\<not> done_on [] k"
  by (simp add: done_on_def)











text \<open>The keys of the sample days.\<close>

lemma sample_day_keys:
  "day_key 19725 = ''2024-01-03''"
  "day_key 19724 = ''2024-01-02''"
  "day_key 19723 = ''2024-01-01''"
  "day_key 19722 = ''2023-12-31''"
  "day_key 19726 = ''2024-01-04''"
  by code_simp+


lemma whole_day_ex_zone:
  assumes "- 100000000 \<le> n" "n < 100000000"
  shows "whole_day ex_zone n"
proof -
  have "in_range ex_zone (n * msPerDay + m) \<and> land ex_zone (n * msPerDay + m) div msPerDay = n"
    if "m \<in> {0..<msPerDay}" for m
  proof -
    have m: "0 \<le> m" "m < msPerDay" using that by simp_all
    have "\<bar>n * 86400000 + m\<bar> \<le> 8640000000000000"
      using assms m by (simp add: msPerDay_def abs_le_iff)
    then have "in_range ex_zone (n * msPerDay + m)"
      by (simp add: in_range_def ex_zone_def msPerDay_def)
    moreover have "land ex_zone (n * msPerDay + m) = n * msPerDay + m"
      by (simp add: land_def ex_zone_def)
    ultimately show ?thesis using m by simp
  qed
  then show ?thesis unfolding whole_day_def by blast
qed

lemma ex_now_fields [simp]: "d_local ex_now = Some 1704276000000" "d_zone ex_now = ex_zone"
  by (simp_all add: ex_now_def)

lemma ex_clock_day [simp]: "(1704276000000 :: int) div msPerDay = 19725"
  by (simp add: msPerDay_def)

lemma ex_addDays_key:
  "- 100000000 \<le> 19725 + n \<Longrightarrow> 19725 + n < 100000000 \<Longrightarrow>
   dayKey (addDays ex_now n) = day_key (19725 + n)"
  using dayKey_addDays_whole_day [of ex_now 1704276000000 n] whole_day_ex_zone [of "19725 + n"]
  by simp

lemma ex_day_keys:
  "dayKey ex_now = ''2024-01-03''"
  "dayKey (addDays ex_now 0) = ''2024-01-03''"
  "dayKey (addDays ex_now (- 1)) = ''2024-01-02''"
  "dayKey (addDays ex_now (- 2)) = ''2024-01-01''"
  "dayKey (addDays ex_now (- 3)) = ''2023-12-31''"
  "dayKey (addDays ex_now 1) = ''2024-01-04''"
proof -
  show "dayKey ex_now = ''2024-01-03''"
    using dayKey_valid [of ex_now 1704276000000] by (simp add: sample_day_keys)
  show "dayKey (addDays ex_now 0) = ''2024-01-03''"
    using ex_addDays_key [of 0] by (simp add: sample_day_keys)
  show "dayKey (addDays ex_now (- 1)) = ''2024-01-02''"
    using ex_addDays_key [of "- 1"] by (simp add: sample_day_keys)
  show "dayKey (addDays ex_now (- 2)) = ''2024-01-01''"
    using ex_addDays_key [of "- 2"] by (simp add: sample_day_keys)
  show "dayKey (addDays ex_now (- 3)) = ''2023-12-31''"
    using ex_addDays_key [of "- 3"] by (simp add: sample_day_keys)
  show "dayKey (addDays ex_now 1) = ''2024-01-04''"
    using ex_addDays_key [of 1] by (simp add: sample_day_keys)
qed

text \<open>In the zone that skips 2011-12-30, the request for the day before 2011-12-31 at 10:00
  is answered with 2011-12-31 at 10:00.\<close>

lemma apia_now_fields [simp]:
  "e_clock ex_apia_env = 1325325600000" "e_zone ex_apia_env = ex_apia"
  by (simp_all add: ex_apia_env_def)

lemma apia_clock_day [simp]:
  "(1325325600000 :: int) div msPerDay = 15339" "(1325325600000 :: int) mod msPerDay = 36000000"
  by (simp_all add: msPerDay_def)





section \<open>The filter of the task list\<close>

lemma mset_sort_insert: "mset (sort_insert cmp x xs) = add_mset x (mset xs)"
  by (induction xs) simp_all

lemma mset_Array_sort: "mset (Array_sort cmp xs) = mset xs"
  by (induction xs) (simp_all add: Array_sort_def mset_sort_insert)

lemma Array_sort_single [simp]: "Array_sort cmp [x] = [x]" "Array_sort cmp [] = []"
  by (simp_all add: Array_sort_def)

lemma visibleTodos_today:
  "s_filter st = FilterToday \<Longrightarrow>
   visibleTodos env st =
     Array_sort (cmp_visible (dayKey (e_now env)))
       (filter (\<lambda>t. due_or (dayKey (e_now env)) t = dayKey (e_now env)) (todosInCat st))"
  by (simp add: visibleTodos_def Let_def)

text \<open>The key of the day after a valid date is another key than the date's own: beyond the
  range of \<open>Date\<close> it is the key of the invalid date, and otherwise the host answers with a
  local time that is not before the one asked for.\<close>

lemma tomorrow_not_today:
  assumes "d_local d = Some t"
  shows "dayKey (addDays d 1) \<noteq> dayKey d"
proof -
  let ?D = "t div msPerDay"
  let ?lt = "(?D + 1) * msPerDay + t mod msPerDay"
  have k: "dayKey d = day_key ?D" using assms by (rule dayKey_valid)
  have e: "addDays d 1 = make_date (d_zone d) ?lt" using assms by (rule addDays_valid)
  show ?thesis
  proof (cases "in_range (d_zone d) ?lt")
    case False
    then have "d_local (addDays d 1) = None" using e by (simp add: make_date_out_of_range)
    then have "dayKey (addDays d 1) = ''NaN-NaN-NaN''" by (rule dayKey_invalid)
    then show ?thesis using k day_key_not_NaN [of ?D] by simp
  next
    case True
    then have l: "d_local (addDays d 1) = Some (land (d_zone d) ?lt)"
      using e by (simp add: make_date_in_range)
    have "(?D + 1) * msPerDay \<le> ?lt" by simp
    also have "?lt \<le> land (d_zone d) ?lt" by (rule land_ge)
    finally have "((?D + 1) * msPerDay) div msPerDay \<le> land (d_zone d) ?lt div msPerDay"
      by (intro zdiv_mono1) simp_all
    moreover have "msPerDay \<noteq> 0" by (simp add: msPerDay_def)
    ultimately have "?D < land (d_zone d) ?lt div msPerDay" by simp
    then have "day_key (land (d_zone d) ?lt div msPerDay) \<noteq> day_key ?D"
      by (simp add: day_key_eq_iff)
    then show ?thesis using dayKey_valid [OF l] k by simp
  qed
qed

text \<open>
  Claim C7. Under the filter \<open>today\<close> the visible tasks are, each as often as it occurs, the
  tasks of the selected category whose \<open>dueDay\<close> is absent or equal to today's key. When
  these tasks are one with no \<open>dueDay\<close> and one due tomorrow, the visible list is the first
  alone.
\<close>

theorem visibleTodos_today_selects:
  assumes "s_filter st = FilterToday"
  shows "mset (visibleTodos env st) =
           mset (filter (\<lambda>t. t_dueDay t = None \<or> t_dueDay t = Some (dayKey (e_now env)))
                   (todosInCat st)) \<and>
         (\<forall>a b. todosInCat st = [a, b] \<and> t_dueDay a = None \<and>
                t_dueDay b = Some (dayKey (addDays (e_now env) 1)) \<longrightarrow>
                visibleTodos env st = [a])"
proof -
  have e: "(due_or k t = k) = (t_dueDay t = None \<or> t_dueDay t = Some k)" for k t
    by (simp add: due_or_def split: option.splits)
  show ?thesis
    using tomorrow_not_today [of "e_now env" "e_clock env"]
    by (auto simp: visibleTodos_today [OF assms] mset_Array_sort e)
qed

text \<open>The instance at the sample page of the work category.\<close>

theorem visibleTodos_today_selects_witness:
  "s_filter ex_work = FilterToday \<and> todosInCat ex_work = [ex_undated, ex_due_tomorrow] \<and>
   t_dueDay ex_undated = None \<and> t_dueDay ex_due_tomorrow = Some (dayKey (addDays ex_now 1)) \<and>
   visibleTodos ex_env ex_work = [ex_undated]"
proof -
  have f: "s_filter ex_work = FilterToday" by (simp add: ex_work_def ex_home_def)
  have c: "todosInCat ex_work = [ex_undated, ex_due_tomorrow]"
    by (simp add: todosInCat_def ex_work_def ex_home_def ex_undated_def ex_due_tomorrow_def
        ex_milk_def)
  have d: "t_dueDay ex_undated = None" "t_dueDay ex_due_tomorrow = Some (dayKey (addDays ex_now 1))"
    by (simp_all add: ex_undated_def ex_due_tomorrow_def ex_day_keys)
  show ?thesis
    using f c d visibleTodos_today_selects [OF f, of ex_env] by simp
qed


section \<open>The weekly aggregate and the 14-day series\<close>

lemma zero_counts_eq: "zero_counts keys k = (if k \<in> set keys then Some 0 else None)"
  by (induction keys) (auto simp: zero_counts_def)

lemma bump_if_key_None: "bump_if_key ko T k = None \<longleftrightarrow> T k = None"
  by (auto simp: bump_if_key_def split: option.splits)

lemma count_at_bump_if_key:
  "count_at (bump_if_key ko T) k =
     count_at T k + (if ko = Some k \<and> k \<noteq> [] \<and> T k \<noteq> None then 1 else 0)"
  by (auto simp: bump_if_key_def count_at_def split: option.splits)

lemma count_at_fold_bump:
  "count_at (fold (\<lambda>t table. if c t then bump_if_key (f t) table else table) ts T) k =
     count_at T k +
     (if k \<noteq> [] \<and> T k \<noteq> None then length (filter (\<lambda>t. c t \<and> f t = Some k) ts) else 0)"
proof (induction ts arbitrary: T)
  case Nil
  show ?case by simp
next
  case (Cons t ts)
  show ?case
    by (simp add: Cons.IH count_at_bump_if_key bump_if_key_None del: not_None_eq)
qed

lemma count_at_zero_counts [simp]: "count_at (zero_counts keys) k = 0"
  by (simp add: count_at_def zero_counts_eq)

lemma count_at_done_per_day:
  "k \<noteq> [] \<Longrightarrow> k \<in> set keys \<Longrightarrow>
   count_at (done_per_day keys ts) k = length (filter (\<lambda>t. t_done t \<and> t_doneDay t = Some k) ts)"
  by (simp add: done_per_day_def count_at_fold_bump zero_counts_eq)

lemma count_at_week_planned:
  "k \<noteq> [] \<Longrightarrow> k \<in> set keys \<Longrightarrow>
   count_at (week_planned keys ts) k = length (filter (\<lambda>t. t_dueDay t = Some k) ts)"
  using count_at_fold_bump [of "\<lambda>t. True" t_dueDay ts "zero_counts keys" k]
  by (simp add: week_planned_def zero_counts_eq)

lemma length_running_sums [simp]: "length (running_sums r xs) = length xs"
  by (induction xs arbitrary: r) simp_all









text \<open>The keys of the 14 days ending on 2012-01-02 in the zone that skips 2011-12-30: the
  request for the day three days back is answered with 2011-12-31, the day two days back.\<close>

lemma apia_later_fields [simp]:
  "e_clock ex_apia_later = 1325498400000" "e_zone ex_apia_later = ex_apia"
  by (simp_all add: ex_apia_later_def)

lemma apia_later_clock_day [simp]:
  "(1325498400000 :: int) div msPerDay = 15341" "(1325498400000 :: int) mod msPerDay = 36000000"
  by (simp_all add: msPerDay_def)








lemma weekKeys_nonempty: "k \<in> set (weekKeysMonSun d) \<Longrightarrow> k \<noteq> []"
  by (auto simp: weekKeysMonSun_def Let_def dayKey_nonempty)

text \<open>What \<open>weekStats\<close> counts for each key of the week: as planned, the tasks whose \<open>dueDay\<close>
  is present and equal to the key; as done, the tasks with \<open>done\<close> true and \<open>doneDay\<close> equal
  to the key.\<close>

lemma weekStats_counts:
  "map (\<lambda>w. (w_key w, w_planned w, w_done w)) (weekStats env st) =
   map (\<lambda>k. (k, length (filter (\<lambda>t. t_dueDay t = Some k) (todosInCat st)),
               length (filter (\<lambda>t. t_done t \<and> t_doneDay t = Some k) (todosInCat st))))
     (weekKeysMonSun (e_now env))"
  by (simp add: weekStats_def Let_def count_at_week_planned count_at_done_per_day
      weekKeys_nonempty)

lemma startOfWeekMonday_valid:
  "d_local d = Some t \<Longrightarrow>
   startOfWeekMonday d =
     setHours0 (addDays d (if (t div msPerDay + 4) mod 7 = 0 then - 6
                           else 1 - (t div msPerDay + 4) mod 7))"
  by (simp add: startOfWeekMonday_def getDay_def getDate_def addDays_def Let_def)

lemma ex_week_start: "startOfWeekMonday ex_now = \<lparr>d_zone = ex_zone, d_local = Some 1704067200000\<rparr>"
proof -
  have "addDays ex_now (- 2) = \<lparr>d_zone = ex_zone, d_local = Some 1704103200000\<rparr>"
    using addDays_valid [of ex_now 1704276000000 "- 2"]
    by (simp add: make_date_def in_range_def land_def ex_zone_def msPerDay_def)
  then show ?thesis
    using startOfWeekMonday_valid [of ex_now 1704276000000]
    by (simp add: setHours0_def make_date_def in_range_def land_def ex_zone_def msPerDay_def)
qed

lemma ex_week_keys:
  "weekKeysMonSun ex_now =
     [''2024-01-01'', ''2024-01-02'', ''2024-01-03'', ''2024-01-04'', ''2024-01-05'',
      ''2024-01-06'', ''2024-01-07'']"
proof -
  let ?s = "\<lparr>d_zone = ex_zone, d_local = Some 1704067200000\<rparr>"
  have u: "[0..<7] = [0, 1, 2, 3, 4, 5, 6]" by (simp add: upt_rec)
  have k: "dayKey (addDays ?s j) = day_key (19723 + j)" if "0 \<le> j" "j < 7" for j
    using dayKey_addDays_whole_day [of ?s 1704067200000 j] whole_day_ex_zone [of "19723 + j"]
      that
    by (simp add: msPerDay_def)
  have more: "day_key 19727 = ''2024-01-05''" "day_key 19728 = ''2024-01-06''"
    "day_key 19729 = ''2024-01-07''"
    by code_simp+
  show ?thesis
    by (simp add: weekKeysMonSun_def Let_def u k ex_week_start sample_day_keys more)
qed

text \<open>
  Claim C2, on the sample page at the clock reading of Wednesday 2024-01-03. The two daily
  tasks have no \<open>dueDay\<close>, so with the default each of them is due today, and
  \<open>weekTasksByDay\<close> lists both under today's key; the planned count of \<open>weekStats\<close> for
  today's key is 0, as for every other day of the week. The done counts are as claimed.
\<close>

theorem weekStats_planned_skips_undated:
  "map w_key (weekStats ex_env ex_home) =
     [''2024-01-01'', ''2024-01-02'', ''2024-01-03'', ''2024-01-04'', ''2024-01-05'',
      ''2024-01-06'', ''2024-01-07''] \<and>
   map w_planned (weekStats ex_env ex_home) = [0, 0, 0, 0, 0, 0, 0] \<and>
   map w_done (weekStats ex_env ex_home) = [0, 0, 1, 0, 0, 0, 0] \<and>
   dayKey (e_now ex_env) = ''2024-01-03'' \<and>
   todosInCat ex_home = [ex_walk, ex_milk] \<and>
   t_dueDay ex_walk = None \<and> t_dueDay ex_milk = None \<and>
   map_option length (weekTasksByDay ex_env ex_home ''2024-01-03'') = Some 2"
proof -
  have c: "todosInCat ex_home = [ex_walk, ex_milk]"
    by (simp add: todosInCat_def ex_home_def ex_walk_def ex_milk_def ex_full_def)
  have m: "map (\<lambda>w. (w_key w, w_planned w, w_done w)) (weekStats ex_env ex_home) =
     [(''2024-01-01'', 0, 0), (''2024-01-02'', 0, 0), (''2024-01-03'', 0, 1),
      (''2024-01-04'', 0, 0), (''2024-01-05'', 0, 0), (''2024-01-06'', 0, 0),
      (''2024-01-07'', 0, 0)]"
    unfolding weekStats_counts c
    by (simp add: ex_week_keys ex_walk_def ex_milk_def)
  have p: "map w_key ws = map fst (map (\<lambda>w. (w_key w, w_planned w, w_done w)) ws)"
    "map w_planned ws = map (fst \<circ> snd) (map (\<lambda>w. (w_key w, w_planned w, w_done w)) ws)"
    "map w_done ws = map (snd \<circ> snd) (map (\<lambda>w. (w_key w, w_planned w, w_done w)) ws)"
    for ws :: "WeekDayStat list"
    by simp_all
  have t: "map_option length (weekTasksByDay ex_env ex_home ''2024-01-03'') = Some 2"
    unfolding weekTasksByDay_def c
    by (simp add: Let_def ex_week_keys ex_day_keys due_or_def ex_walk_def ex_milk_def
        Array_sort_def)
  show ?thesis
    unfolding p m using c t by (simp add: ex_day_keys ex_walk_def ex_milk_def)
qed



section \<open>Rounding to binary64\<close>

lemma ulp_pos: "0 < ulp x"
  by (simp add: ulp_def)

lemma round_even_lower: "\<lfloor>y\<rfloor> \<le> round_even y"
  by (simp add: round_even_def Let_def)

lemma round_even_upper: "round_even y \<le> \<lceil>y\<rceil>"
proof -
  have "\<lfloor>y\<rfloor> + 1 \<le> \<lceil>y\<rceil>" if "1 / 2 \<le> y - of_int \<lfloor>y\<rfloor>"
  proof -
    have "of_int \<lfloor>y\<rfloor> < y" using that by linarith
    then show ?thesis by linarith
  qed
  moreover have "\<lfloor>y\<rfloor> \<le> \<lceil>y\<rceil>" by linarith
  ultimately show ?thesis by (simp add: round_even_def Let_def not_less)
qed

lemma round_even_ge:
  assumes "of_int N \<le> y"
  shows "N \<le> round_even y"
proof -
  have "N \<le> \<lfloor>y\<rfloor>" using assms by (simp add: le_floor_iff)
  then show ?thesis using round_even_lower [of y] by linarith
qed

lemma round_even_le:
  assumes "y \<le> of_int N"
  shows "round_even y \<le> N"
proof -
  have "\<lceil>y\<rceil> \<le> N" using assms by (simp add: ceiling_le_iff)
  then show ?thesis using round_even_upper [of y] by linarith
qed

lemma round_even_near:
  assumes "of_int N - 1 / 2 < y" "y \<le> of_int N"
  shows "round_even y = N"
proof (cases "y = of_int N")
  case True
  then show ?thesis by (simp add: round_even_def)
next
  case False
  then have "y < of_int N" using assms(2) by simp
  moreover have "of_int (N - 1) \<le> y" using assms(1) by simp
  ultimately have f: "\<lfloor>y\<rfloor> = N - 1" by (simp add: floor_eq_iff)
  have "1 / 2 < y - of_int \<lfloor>y\<rfloor>" unfolding f using assms(1) by simp
  then show ?thesis unfolding round_even_def Let_def f by simp
qed

text \<open>A multiple of \<open>2 powr j\<close> is a binary64 number of the binade of \<open>x\<close> when \<open>x\<close> is below
  \<open>2 powr (j + 53)\<close> in absolute value.\<close>

lemma on_grid:
  assumes "x \<noteq> 0" "\<bar>x\<bar> < 2 powr (of_int j + 53)"
  shows "\<exists>N. of_int M * 2 powr (of_int j) = of_int N * ulp x"
proof -
  define e where "e = \<lfloor>log 2 \<bar>x\<bar>\<rfloor>"
  have "0 < \<bar>x\<bar>" using assms(1) by simp
  then have "log 2 \<bar>x\<bar> < of_int j + 53"
    using assms(2) by (intro log_less_iff [THEN iffD2]) simp_all
  moreover have "of_int e \<le> log 2 \<bar>x\<bar>" unfolding e_def by (rule of_int_floor_le)
  ultimately have "(of_int e :: real) < of_int (j + 53)" by simp
  then have "e < j + 53" by (simp only: of_int_less_iff)
  then have q: "0 \<le> j + 52 - e" by simp
  have "of_int j = of_int (j + 52 - e) + (of_int e - 52 :: real)" by simp
  then have "(2::real) powr (of_int j) = 2 powr (of_int (j + 52 - e)) * 2 powr (of_int e - 52)"
    by (simp only: powr_add)
  also have "(2::real) powr (of_int (j + 52 - e)) = 2 ^ nat (j + 52 - e)"
    using q powr_real_of_int [of "2::real" "j + 52 - e"] by simp
  finally have "of_int M * 2 powr (of_int j) = of_int (M * 2 ^ nat (j + 52 - e)) * ulp x"
    by (simp add: ulp_def e_def)
  then show ?thesis by blast
qed

lemma fl_le_grid:
  assumes "x \<noteq> 0" "\<bar>x\<bar> < 2 powr (of_int j + 53)" "x \<le> of_int M * 2 powr (of_int j)"
  shows "fl x \<le> of_int M * 2 powr (of_int j)"
proof -
  obtain N where N: "of_int M * 2 powr (of_int j) = of_int N * ulp x"
    using on_grid [OF assms(1,2)] by blast
  have "x / ulp x \<le> of_int N"
    using assms(3) ulp_pos [of x] unfolding N by (simp add: pos_divide_le_eq)
  then have "round_even (x / ulp x) \<le> N" by (rule round_even_le)
  then have "of_int (round_even (x / ulp x)) * ulp x \<le> of_int N * ulp x"
    using ulp_pos [of x] by (simp add: mult_right_mono)
  then show ?thesis using assms(1) N by (simp add: fl_def)
qed

lemma fl_ge_grid:
  assumes "x \<noteq> 0" "\<bar>x\<bar> < 2 powr (of_int j + 53)" "of_int M * 2 powr (of_int j) \<le> x"
  shows "of_int M * 2 powr (of_int j) \<le> fl x"
proof -
  obtain N where N: "of_int M * 2 powr (of_int j) = of_int N * ulp x"
    using on_grid [OF assms(1,2)] by blast
  have "of_int N \<le> x / ulp x"
    using assms(3) ulp_pos [of x] unfolding N by (simp add: pos_le_divide_eq)
  then have "N \<le> round_even (x / ulp x)" by (rule round_even_ge)
  then have "of_int N * ulp x \<le> of_int (round_even (x / ulp x)) * ulp x"
    using ulp_pos [of x] by (simp add: mult_right_mono)
  then show ?thesis using assms(1) N by (simp add: fl_def)
qed

text \<open>The instances for whole numbers below \<open>2 ^ 53\<close> and for multiples of \<open>1 / 2 ^ 49\<close> below
  16.\<close>

lemma fl_le_int:
  assumes "x \<noteq> 0" "\<bar>x\<bar> < 9007199254740992" "x \<le> of_int M"
  shows "fl x \<le> of_int M"
  using fl_le_grid [of x 0 M] assms by simp

lemma fl_ge_int:
  assumes "x \<noteq> 0" "\<bar>x\<bar> < 9007199254740992" "of_int M \<le> x"
  shows "of_int M \<le> fl x"
  using fl_ge_grid [of x 0 M] assms by simp

lemma fl_int:
  assumes "\<bar>M\<bar> < 9007199254740992"
  shows "fl (of_int M) = of_int M"
proof (cases "M = 0")
  case True
  then show ?thesis by (simp add: fl_def)
next
  case False
  have b: "\<bar>of_int M :: real\<bar> < 9007199254740992"
    using assms by (metis of_int_abs of_int_less_numeral_iff)
  have "(of_int M :: real) \<noteq> 0" using False by simp
  then show ?thesis
    using fl_le_int [of "of_int M" M] fl_ge_int [of "of_int M" M] b by simp
qed

lemma powr_m49: "(2::real) powr (of_int (- 49)) = 1 / 2 ^ 49"
  by (simp add: powr_minus_divide)

lemma fl_le_49:
  assumes "x \<noteq> 0" "\<bar>x\<bar> < 16" "x \<le> of_int M / 2 ^ 49"
  shows "fl x \<le> of_int M / 2 ^ 49"
proof -
  have "\<bar>x\<bar> < 2 powr (of_int (- 49) + 53)" using assms(2) by simp
  moreover have "x \<le> of_int M * 2 powr (of_int (- 49))"
    using assms(3) unfolding powr_m49 by simp
  ultimately have "fl x \<le> of_int M * 2 powr (of_int (- 49))"
    using assms(1) by (intro fl_le_grid)
  then show ?thesis unfolding powr_m49 by simp
qed

lemma fl_ge_49:
  assumes "x \<noteq> 0" "\<bar>x\<bar> < 16" "of_int M / 2 ^ 49 \<le> x"
  shows "of_int M / 2 ^ 49 \<le> fl x"
proof -
  have "\<bar>x\<bar> < 2 powr (of_int (- 49) + 53)" using assms(2) by simp
  moreover have "of_int M * 2 powr (of_int (- 49)) \<le> x"
    using assms(3) unfolding powr_m49 by simp
  ultimately have "of_int M * 2 powr (of_int (- 49)) \<le> fl x"
    using assms(1) by (intro fl_ge_grid)
  then show ?thesis unfolding powr_m49 by simp
qed

lemma ulp_8_16:
  assumes "8 \<le> x" "x < 16"
  shows "ulp x = 1 / 2 ^ 49"
proof -
  have pos: "0 < x" using assms(1) by simp
  have "(2::real) powr 3 \<le> x" using assms(1) by simp
  then have "3 \<le> log 2 x" using pos by (intro le_log_iff [THEN iffD2]) simp_all
  moreover have "x < (2::real) powr 4" using assms(2) by simp
  then have "log 2 x < 4" using pos by (intro log_less_iff [THEN iffD2]) simp_all
  ultimately have "\<lfloor>log 2 x\<rfloor> = 3" by (simp add: floor_eq_iff)
  then have "ulp x = 2 powr (of_int (- 49))" using pos by (simp add: ulp_def)
  then show ?thesis unfolding powr_m49 .
qed


section \<open>The ceiling of the chart axis\<close>

lemma niceCeil_small [simp]:
  "niceCeil 7 = 10" "niceCeil 15 = 20" "niceCeil 37 = 50" "niceCeil 83 = 100"
  by (simp_all add: niceCeil_def)

lemma ln10_le_3: "ln (10::real) \<le> 3"
proof -
  have "(5 / 2 :: real) \<le> exp 1"
    using exp_lower_Taylor_quadratic [of "1::real"] by simp
  then have "(5 / 2) * (5 / 2) * (5 / 2 :: real) \<le> exp 1 * exp 1 * exp 1"
    by (intro mult_mono) simp_all
  also have "exp 1 * exp 1 * exp 1 = exp (3::real)" by (simp add: exp_add [symmetric])
  finally have "(10::real) \<le> exp 3" by simp
  then have "ln (10::real) \<le> ln (exp 3)" by (intro ln_mono) simp_all
  then show ?thesis by simp
qed

lemma ln10_ge_2: "2 \<le> ln (10::real)"
proof -
  have "exp 1 * exp 1 \<le> (3::real) * 3"
    using exp_le by (intro mult_mono) simp_all
  moreover have "exp 1 * exp 1 = exp (2::real)" by (simp add: exp_add [symmetric])
  ultimately have "exp (2::real) \<le> 10" by simp
  then have "ln (exp (2::real)) \<le> ln 10" by (intro ln_mono) simp_all
  then show ?thesis by simp
qed

text \<open>The logarithm of a number one below a power of 10 of at most 14 digits is below the
  exponent by more than the distance between binary64 numbers there.\<close>

lemma log10_below_power:
  assumes "0 < x" "x \<le> 10 ^ K - 1" "K \<le> 14"
  shows "log 10 x \<le> real K - 1 / 2 ^ 49"
proof -
  define u :: real where "u = 1 / 10 ^ K"
  have u: "0 < u" by (simp add: u_def)
  have "(1::real) < 10 ^ K" using assms(1,2) by linarith
  then have u1: "u < 1" by (simp add: u_def)
  have e: "(10::real) ^ K - 1 = 10 ^ K * (1 - u)" by (simp add: u_def algebra_simps)
  have "log 10 x \<le> log 10 (10 ^ K * (1 - u))"
    using assms(1,2) unfolding e by (intro log_le_cancel_iff [THEN iffD2]) simp_all
  also have "\<dots> = log 10 (10 ^ K) + log 10 (1 - u)"
    using u1 by (simp add: log_mult)
  also have "log 10 ((10::real) ^ K) = real K" by (simp add: log_nat_power)
  finally have a: "log 10 x \<le> real K + log 10 (1 - u)" .
  have l10: "0 < ln (10::real)" by simp
  have "ln (1 - u) \<le> - u" using ln_le_minus_one [of "1 - u"] u1 by simp
  then have "ln (1 - u) / ln 10 \<le> - u / ln 10" using l10 by (intro divide_right_mono) simp_all
  also have "- u / ln 10 \<le> - u / 3"
  proof -
    have "u / 3 \<le> u / ln 10" using u l10 ln10_le_3 by (intro divide_left_mono) simp_all
    then show ?thesis by simp
  qed
  finally have b: "log 10 (1 - u) \<le> - u / 3" by (simp add: log_def)
  have "(10::real) ^ K \<le> 10 ^ 14" using assms(3) by (intro power_increasing) simp_all
  then have "3 * (10::real) ^ K \<le> 2 ^ 49" by simp
  then have "1 / (2 ^ 49 :: real) \<le> 1 / (3 * 10 ^ K)" by (intro divide_left_mono) simp_all
  then have c: "1 / 2 ^ 49 \<le> u / 3" by (simp add: u_def)
  show ?thesis using a b c by linarith
qed

text \<open>Above 100 and below \<open>10 ^ 14\<close>, on whole numbers, every step of \<open>niceCeil\<close> gives the
  value it would give without rounding.\<close>

lemma niceCeil_large:
  fixes n :: nat
  assumes "100 < n" "10 ^ k \<le> n" "n < 10 ^ Suc k" "k \<le> 13"
  shows "niceCeil (real n) =
           (if n \<le> 2 * 10 ^ k then 2 * 10 ^ k
            else if n \<le> 5 * 10 ^ k then 5 * 10 ^ k else 10 * 10 ^ k)"
proof -
  let ?x = "real n"
  have pos: "0 < ?x" using assms(1) by simp
  have big: "\<not> ?x \<le> 100" "\<not> ?x \<le> 50" "\<not> ?x \<le> 20" "\<not> ?x \<le> 10" using assms(1) by simp_all
  have pk: "(0::real) < 10 ^ k" by simp
  have pk13: "(10::real) ^ k \<le> 10 ^ 13" using assms(4) by (intro power_increasing) simp_all
  have lo: "(10::real) ^ k \<le> ?x"
    using assms(2) by (metis of_nat_le_iff of_nat_numeral of_nat_power)
  have "n + 1 \<le> 10 ^ Suc k" using assms(3) by simp
  then have "real (n + 1) \<le> real (10 ^ Suc k)" by (simp only: of_nat_le_iff)
  then have hi: "?x \<le> 10 ^ Suc k - 1" by simp
  have "(100::real) < ?x" using assms(1) by simp
  then have "log 10 100 < log 10 ?x" by (intro log_less_cancel_iff [THEN iffD2]) simp_all
  moreover have "log 10 (100::real) = 2"
    using log_nat_power [of 10 10 2] by simp
  ultimately have l2: "2 < log 10 ?x" by simp
  have la: "real k \<le> log 10 ?x"
    using lo pos by (simp add: le_log_iff powr_realpow)
  have lb: "log 10 ?x \<le> real (Suc k) - 1 / 2 ^ 49"
    using pos hi by (rule log10_below_power) (use assms(4) in simp)
  have l0: "log 10 ?x \<noteq> 0" using l2 by simp
  have l16: "\<bar>log 10 ?x\<bar> < 16" using l2 lb assms(4) by simp
  have "of_int (int k) \<le> log 10 ?x" using la by simp
  then have "of_int (int k) \<le> fl (log 10 ?x)"
    using l0 l16 by (intro fl_ge_int) simp_all
  then have f1: "real k \<le> fl (log 10 ?x)" by simp
  have "log 10 ?x \<le> of_int (int (Suc k) * 2 ^ 49 - 1) / 2 ^ 49"
    using lb by (simp add: field_simps)
  then have "fl (log 10 ?x) \<le> of_int (int (Suc k) * 2 ^ 49 - 1) / 2 ^ 49"
    using l0 l16 by (intro fl_le_49)
  then have f2: "fl (log 10 ?x) < real k + 1" by (simp add: field_simps)
  have "\<lfloor>fl (log 10 ?x)\<rfloor> = int k" using f1 f2 by (simp add: floor_eq_iff)
  then have fk: "Math_floor (Math_log10 ?x) = real k"
    by (simp add: Math_floor_def Math_log10_def)
  have ex: "fl (c * 10 ^ k) = c * 10 ^ k" if "c \<in> {1, 2, 5, 10}" for c :: int
  proof -
    have "\<bar>c * 10 ^ k\<bar> \<le> 10 * 10 ^ k" using that by auto
    also have "(10::int) * 10 ^ k \<le> 10 * 10 ^ 13"
      using assms(4) by (intro mult_left_mono power_increasing) simp_all
    finally have "\<bar>c * 10 ^ k\<bar> < 9007199254740992" by simp
    then have "fl (of_int (c * 10 ^ k)) = of_int (c * 10 ^ k)" by (rule fl_int)
    then show ?thesis by simp
  qed
  have p: "Math_pow 10 (real k) = 10 ^ k"
    using ex [of 1] by (simp add: Math_pow_def powr_realpow)
  let ?y = "?x / 10 ^ k"
  have y1: "1 \<le> ?y" using lo pk by (simp add: pos_le_divide_eq)
  have "?x < 10 * 10 ^ k" using hi by simp
  then have y10: "?y < 10" using pk by (simp add: pos_divide_less_eq)
  have y0: "?y \<noteq> 0" "\<bar>?y\<bar> < 16" "\<bar>?y\<bar> < 9007199254740992"
    using y1 y10 by linarith+
  have m: "fl ?y \<le> of_int c \<longleftrightarrow> n \<le> nat c * 10 ^ k" if c: "0 \<le> c" for c :: int
  proof
    assume a: "n \<le> nat c * 10 ^ k"
    then have "?x \<le> real (nat c * 10 ^ k)" by (simp only: of_nat_le_iff)
    then have "?x \<le> of_int c * 10 ^ k" using c by simp
    then have "?y \<le> of_int c" using pk by (simp add: pos_divide_le_eq)
    then show "fl ?y \<le> of_int c" using y0 by (intro fl_le_int)
  next
    assume a: "fl ?y \<le> of_int c"
    show "n \<le> nat c * 10 ^ k"
    proof (rule ccontr)
      assume "\<not> n \<le> nat c * 10 ^ k"
      then have "nat c * 10 ^ k + 1 \<le> n" by simp
      then have "real (nat c * 10 ^ k + 1) \<le> ?x" by (simp only: of_nat_le_iff)
      then have "of_int c * 10 ^ k + 1 \<le> ?x" using c by simp
      then have "(of_int c * 10 ^ k + 1) / 10 ^ k \<le> ?y"
        using pk by (intro divide_right_mono) simp_all
      then have y: "of_int c + 1 / 10 ^ k \<le> ?y" using pk by (simp add: field_simps)
      have "(10::real) ^ k \<le> 2 ^ 49" using pk13 by simp
      then have "1 / (2 ^ 49 :: real) \<le> 1 / 10 ^ k" using pk by (intro divide_left_mono) simp_all
      then have "of_int c + 1 / 2 ^ 49 \<le> ?y" using y by linarith
      then have "of_int (c * 2 ^ 49 + 1) / 2 ^ 49 \<le> ?y" by (simp add: field_simps)
      then have "of_int (c * 2 ^ 49 + 1) / 2 ^ 49 \<le> fl ?y" using y0 by (intro fl_ge_49)
      then have "of_int c + 1 / 2 ^ 49 \<le> fl ?y" by (simp add: field_simps)
      then show False using a by simp
    qed
  qed
  have m2: "fl ?y \<le> 2 \<longleftrightarrow> n \<le> 2 * 10 ^ k" using m [of 2] by simp
  have m5: "fl ?y \<le> 5 \<longleftrightarrow> n \<le> 5 * 10 ^ k" using m [of 5] by simp
  show ?thesis
    unfolding niceCeil_def fk p Let_def
    using big m2 m5 ex [of 2] ex [of 5] ex [of 10] by simp
qed


text \<open>The logarithm of \<open>10 ^ 15 - 1\<close> is nearer to 15 than to the binary64 number before 15,
  so that \<open>Math.log10\<close> returns 15 for it.\<close>

lemma log10_near_15:
  "15 - 1 / 2 ^ 50 < log 10 (999999999999999::real)" "log 10 (999999999999999::real) \<le> 15"
proof -
  define u :: real where "u = 1 / 10 ^ 15"
  have e: "(999999999999999::real) = 10 ^ 15 * (1 - u)" by (simp add: u_def)
  have "log 10 (10 ^ 15 * (1 - u)) = log 10 (10 ^ 15) + log 10 (1 - u)"
    by (rule log_mult_pos) (simp_all add: u_def)
  moreover have "log 10 ((10::real) ^ 15) = 15"
    using log_nat_power [of 10 10 15] by simp
  ultimately have l: "log 10 (999999999999999::real) = 15 + ln (1 - u) / ln 10"
    unfolding e by (simp add: log_def)
  have l10: "0 < ln (10::real)" by simp
  have "ln (1 - u) \<le> 0" by (simp add: u_def)
  then have "ln (1 - u) / ln 10 \<le> 0" using l10 by (simp add: divide_le_0_iff)
  then show "log 10 (999999999999999::real) \<le> 15" unfolding l by simp
  define a where "a = u + 2 * u\<^sup>2"
  have a0: "0 \<le> a" by (simp add: a_def u_def)
  have "- u - 2 * u\<^sup>2 \<le> ln (1 - u)"
    by (rule ln_one_minus_pos_lower_bound) (simp_all add: u_def)
  then have "- a \<le> ln (1 - u)" by (simp add: a_def)
  then have "(- a) / ln 10 \<le> ln (1 - u) / ln 10"
    using l10 by (intro divide_right_mono) simp_all
  then have s1: "- (a / ln 10) \<le> ln (1 - u) / ln 10" by simp
  have s2: "a / ln 10 \<le> a / 2"
    using ln10_ge_2 a0 by (intro divide_left_mono) simp_all
  have s3: "a / 2 < 1 / 2 ^ 50" by (simp add: a_def u_def power2_eq_square)
  have "- (1 / 2 ^ 50) < ln (1 - u) / ln 10" using s1 s2 s3 by linarith
  then show "15 - 1 / 2 ^ 50 < log 10 (999999999999999::real)" unfolding l by linarith
qed

lemma Math_log10_near_15: "Math_log10 999999999999999 = 15"
proof -
  let ?x = "log 10 (999999999999999::real)"
  have b: "15 - 1 / 2 ^ 50 < ?x" "?x \<le> 15" by (rule log10_near_15)+
  have x8: "8 \<le> ?x" "?x < 16" "?x \<noteq> 0" using b by simp_all
  have u: "ulp ?x = 1 / 2 ^ 49" using x8(1,2) by (rule ulp_8_16)
  have "of_int (15 * 2 ^ 49) - 1 / 2 < ?x / ulp ?x" unfolding u using b(1) by simp
  moreover have "?x / ulp ?x \<le> of_int (15 * 2 ^ 49)" unfolding u using b(2) by simp
  ultimately have "round_even (?x / ulp ?x) = 15 * 2 ^ 49" by (rule round_even_near)
  then have "fl ?x = of_int (15 * 2 ^ 49) * (1 / 2 ^ 49)"
    using x8(3) unfolding fl_def u by simp
  then show ?thesis by (simp add: Math_log10_def)
qed

text \<open>
  Claim C8, as stated for every \<open>n\<close> above 100, fails. The largest power of 10 not above
  \<open>10 ^ 15 - 1\<close> is \<open>10 ^ 14\<close>, and the claim gives 10 times it, \<open>10 ^ 15\<close>; the logarithm of
  \<open>10 ^ 15 - 1\<close> is rounded to 15, so that \<open>niceCeil\<close> takes \<open>10 ^ 15\<close> for the power and returns
  2 times it.
\<close>

theorem niceCeil_rounded_log_counterexample:
  "(10::real) ^ 14 \<le> 999999999999999 \<and> (999999999999999::real) < 10 ^ 15 \<and>
   niceCeil 999999999999999 = 2000000000000000"
proof -
  have f: "Math_floor (Math_log10 999999999999999) = 15"
    by (simp add: Math_log10_near_15 Math_floor_def)
  have "fl (of_int 1000000000000000) = of_int 1000000000000000" by (rule fl_int) simp
  then have p: "Math_pow 10 15 = 1000000000000000" by (simp add: Math_pow_def)
  have "fl (999999999999999 / 1000000000000000) \<le> of_int 2"
    by (rule fl_le_int) simp_all
  then have m: "fl (999999999999999 / 1000000000000000) \<le> 2" by simp
  have "fl (of_int 2000000000000000) = of_int 2000000000000000" by (rule fl_int) simp
  then have r: "fl 2000000000000000 = 2000000000000000" by simp
  have "niceCeil 999999999999999 = 2000000000000000"
    unfolding niceCeil_def f p Let_def using m r by simp
  then show ?thesis by simp
qed

text \<open>
  Claim C8, amended: the seven values of \<open>niceCeil\<close>, and its shape on the whole numbers
  above 100 and below \<open>10 ^ 14\<close>: with \<open>10 ^ k\<close> the largest power of 10 not above \<open>n\<close>, the
  result is 2, 5 or 10 times \<open>10 ^ k\<close>, it is not below \<open>n\<close>, and it is the least of the three
  multiples that is not below \<open>n\<close>.
\<close>

theorem niceCeil_values_and_whole_number_shape:
  "niceCeil 7 = 10 \<and> niceCeil 15 = 20 \<and> niceCeil 37 = 50 \<and> niceCeil 83 = 100 \<and>
   niceCeil 150 = 200 \<and> niceCeil 430 = 500 \<and> niceCeil 1200 = 2000 \<and>
   (\<forall>n::nat. 100 < n \<and> n < 10 ^ 14 \<longrightarrow>
      (\<exists>k::nat. 10 ^ k \<le> real n \<and> real n < 10 ^ (k + 1) \<and>
         niceCeil (real n) \<in> {2 * 10 ^ k, 5 * 10 ^ k, 10 * 10 ^ k} \<and>
         real n \<le> niceCeil (real n) \<and>
         (\<forall>c \<in> {2, 5, 10}. real n \<le> c * 10 ^ k \<longrightarrow> niceCeil (real n) \<le> c * 10 ^ k)))"
proof -
  have a: "niceCeil 150 = 200" using niceCeil_large [of 150 2] by simp
  have b: "niceCeil 430 = 500" using niceCeil_large [of 430 2] by simp
  have c: "niceCeil 1200 = 2000" using niceCeil_large [of 1200 3] by simp
  have g: "\<exists>k::nat. 10 ^ k \<le> real n \<and> real n < 10 ^ (k + 1) \<and>
        niceCeil (real n) \<in> {2 * 10 ^ k, 5 * 10 ^ k, 10 * 10 ^ k} \<and>
        real n \<le> niceCeil (real n) \<and>
        (\<forall>c \<in> {2, 5, 10}. real n \<le> c * 10 ^ k \<longrightarrow> niceCeil (real n) \<le> c * 10 ^ k)"
    if n: "100 < n" "n < 10 ^ 14" for n :: nat
  proof -
    let ?x = "real n"
    have pos: "0 < ?x" using n(1) by simp
    have "1 \<le> ?x" using n(1) by simp
    then have "0 \<le> log 10 ?x" by simp
    then have z: "0 \<le> \<lfloor>log 10 ?x\<rfloor>" by simp
    define k where "k = nat \<lfloor>log 10 ?x\<rfloor>"
    have ik: "of_int \<lfloor>log 10 ?x\<rfloor> = real k" using z by (simp add: k_def)
    have "10 powr (of_int \<lfloor>log 10 ?x\<rfloor>) \<le> ?x"
      by (rule le_log_iff [THEN iffD1]) (use pos in simp_all)
    then have lo: "10 ^ k \<le> ?x" unfolding ik by (simp add: powr_realpow)
    have "log 10 ?x < of_int \<lfloor>log 10 ?x\<rfloor> + 1" by linarith
    then have "?x < 10 powr (of_int \<lfloor>log 10 ?x\<rfloor> + 1)"
      by (rule log_less_iff [THEN iffD1, rotated 2]) (use pos in simp_all)
    moreover have "of_int \<lfloor>log 10 ?x\<rfloor> + 1 = real (Suc k)" using ik by simp
    ultimately have hi: "?x < 10 ^ Suc k" by (simp only: powr_realpow zero_less_numeral)
    have lon: "10 ^ k \<le> n" using lo by (metis of_nat_le_iff of_nat_numeral of_nat_power)
    have hin: "n < 10 ^ Suc k" using hi by (metis of_nat_less_iff of_nat_numeral of_nat_power)
    have "(10::nat) ^ k < 10 ^ 14" using lon n(2) by linarith
    then have "k < 14" by (simp only: power_strict_increasing_iff [of "10::nat"] one_less_numeral_iff semiring_norm)
    then have k13: "k \<le> 13" by simp
    have v: "niceCeil ?x = (if n \<le> 2 * 10 ^ k then 2 * 10 ^ k
                       else if n \<le> 5 * 10 ^ k then 5 * 10 ^ k else 10 * 10 ^ k)"
      using n(1) lon hin k13 by (rule niceCeil_large)
    have pk: "(0::real) < 10 ^ k" by simp
    have c2: "n \<le> 2 * 10 ^ k \<longleftrightarrow> ?x \<le> 2 * 10 ^ k"
      by (metis of_nat_le_iff of_nat_numeral of_nat_power of_nat_mult)
    have c5: "n \<le> 5 * 10 ^ k \<longleftrightarrow> ?x \<le> 5 * 10 ^ k"
      by (metis of_nat_le_iff of_nat_numeral of_nat_power of_nat_mult)
    show ?thesis
      apply (rule exI [of _ k])
      using lo hi pk unfolding v c2 c5 by auto
  qed
  show ?thesis using a b c g by simp
qed

text \<open>The instance at 430.\<close>

theorem niceCeil_values_and_whole_number_shape_witness:
  "(100::nat) < 430 \<and> (430::nat) < 10 ^ 14 \<and>
   (\<exists>k::nat. 10 ^ k \<le> real 430 \<and> real 430 < 10 ^ (k + 1) \<and>
        niceCeil (real 430) \<in> {2 * 10 ^ k, 5 * 10 ^ k, 10 * 10 ^ k} \<and>
        real 430 \<le> niceCeil (real 430) \<and>
        (\<forall>c \<in> {2, 5, 10}. real 430 \<le> c * 10 ^ k \<longrightarrow> niceCeil (real 430) \<le> c * 10 ^ k))"
proof -
  have h: "(100::nat) < 430" "(430::nat) < 10 ^ 14" by simp_all
  have "\<forall>n::nat. 100 < n \<and> n < 10 ^ 14 \<longrightarrow>
      (\<exists>k::nat. 10 ^ k \<le> real n \<and> real n < 10 ^ (k + 1) \<and>
         niceCeil (real n) \<in> {2 * 10 ^ k, 5 * 10 ^ k, 10 * 10 ^ k} \<and>
         real n \<le> niceCeil (real n) \<and>
         (\<forall>c \<in> {2, 5, 10}. real n \<le> c * 10 ^ k \<longrightarrow> niceCeil (real n) \<le> c * 10 ^ k))"
    using niceCeil_values_and_whole_number_shape by (elim conjE)
  then show ?thesis using h by blast
qed

end
